theory Spec2Isabelle
  imports Complex_Main
begin

section \<open>Errors and tensors\<close>

text \<open>
  The program is Python over numpy arrays and graph tensors. A raise of the interpreter or
  of the graph runtime is a value: \<open>Inl\<close> of an \<open>error\<close>.
\<close>

datatype error = IndexError | AssertionError | InvalidArgumentError

text \<open>
  A 2-D integer tensor keeps its second dimension apart from its rows, so that the shapes
  \<open>[h, 0]\<close> and \<open>[0, h]\<close> stay distinct: \<open>Tensor2 c rs\<close> has shape
  \<open>[length rs, c]\<close>.
\<close>

datatype 'a tensor2 = Tensor2 (ncols: nat) (rows: "'a list list")

definition wf_tensor2 :: "'a tensor2 \<Rightarrow> bool" where
  "wf_tensor2 t = list_all (\<lambda>r. length r = ncols t) (rows t)"

definition tf_transpose :: "'a tensor2 \<Rightarrow> 'a tensor2" where
  "tf_transpose t = Tensor2 (length (rows t)) (map (\<lambda>j. map (\<lambda>r. r ! j) (rows t)) [0..<ncols t])"

section \<open>find_first\<close>

text \<open>
  \<^verbatim>\<open>def step(st, col): ix, poss = st; eqs = cast(equal([val], col), int32);
  return (ix + 1, minimum(poss, ix * eqs + vlen * (1 - eqs)))\<close>
\<close>

definition step :: "int \<Rightarrow> int \<Rightarrow> int \<times> int list \<Rightarrow> int list \<Rightarrow> int \<times> int list" where
  "step val vlen st col =
     (case st of (ix, poss) \<Rightarrow>
        let eqs = map (\<lambda>c. if val = c then (1::int) else 0) col
        in (ix + 1, map2 min poss (map (\<lambda>e. ix * e + vlen * (1 - e)) eqs)))"

text \<open>\<open>tf.scan\<close>: the state after every element of the leading dimension, stacked.\<close>

fun scan :: "('s \<Rightarrow> 'a \<Rightarrow> 's) \<Rightarrow> 'a list \<Rightarrow> 's \<Rightarrow> 's list" where
  "scan f [] st = []"
| "scan f (x # xs) st = f st x # scan f xs (f st x)"

text \<open>
  \<^verbatim>\<open>tf.scan(step, vec, (0, vlen + tf.zeros(vheight)))[1][-1, :]\<close>: the positions after
  the last step. The slice \<open>[-1, :]\<close> of a scan over no element is out of bounds.
\<close>

definition find_first :: "int tensor2 \<Rightarrow> int \<Rightarrow> bool \<Rightarrow> error + int list" where
  "find_first vec0 val do_transpose =
     (let vec = (if do_transpose then tf_transpose vec0 else vec0);
          vheight = ncols vec;
          vlen = int (length (rows vec));
          out = scan (step val vlen) (rows vec) (0, replicate vheight vlen)
      in case map snd out of
           [] \<Rightarrow> Inl InvalidArgumentError
         | p # ps \<Rightarrow> Inr (last (p # ps)))"

text \<open>
  Beam search branch of \<open>decode_lemmas\<close>:
  \<^verbatim>\<open>self.lemma_prediction_lengths = 1 + find_first(self.lemma_predictions, eow)\<close>
\<close>

definition beam_prediction_lengths :: "int tensor2 \<Rightarrow> int \<Rightarrow> error + int list" where
  "beam_prediction_lengths lemma_predictions eow =
     (case find_first lemma_predictions eow True of
        Inl e \<Rightarrow> Inl e
      | Inr poss \<Rightarrow> Inr (map (\<lambda>p. 1 + p) poss))"

text \<open>The index of the first occurrence of a value in a list, the length when there is none.\<close>

fun first_pos :: "'a list \<Rightarrow> 'a \<Rightarrow> nat" where
  "first_pos [] v = 0"
| "first_pos (x # xs) v = (if x = v then 0 else Suc (first_pos xs v))"
section \<open>Training targets of the lemma decoder\<close>

text \<open>
  \<open>tf.reverse_sequence(input, seq_lengths, 1)\<close> reverses the first \<open>seq_lengths[i]\<close>
  entries of row \<open>i\<close>; a length below zero or above the row width is refused at run time.
\<close>

definition reverse_sequence :: "'a tensor2 \<Rightarrow> int list \<Rightarrow> error + 'a tensor2" where
  "reverse_sequence t seq_lengths =
     (if length seq_lengths \<noteq> length (rows t)
         \<or> \<not> list_all (\<lambda>l. 0 \<le> l \<and> l \<le> int (ncols t)) seq_lengths
      then Inl InvalidArgumentError
      else Inr (Tensor2 (ncols t)
             (map2 (\<lambda>r l. rev (take (nat l) r) @ drop (nat l) r) (rows t) seq_lengths)))"

text \<open>\<open>tf.pad(t, [[0, 0], [1, 0]], constant_values=c)\<close>: one column of \<open>c\<close> in front.\<close>

definition pad_front :: "'a \<Rightarrow> 'a tensor2 \<Rightarrow> 'a tensor2" where
  "pad_front c t = Tensor2 (ncols t + 1) (map (\<lambda>r. c # r) (rows t))"

text \<open>The slice \<open>t[:, :-1]\<close>: every row without its last entry.\<close>

definition drop_last_col :: "'a tensor2 \<Rightarrow> 'a tensor2" where
  "drop_last_col t = Tensor2 (ncols t - 1) (map butlast (rows t))"

text \<open>
  \<open>Network.construct\<close>, "Add eow at the end":
  \<^verbatim>\<open>target_seqs = tf.reverse_sequence(target_seqs, target_lens, 1)
  target_seqs = tf.pad(target_seqs, [[0, 0], [1, 0]], constant_values=eow)
  target_lens = target_lens + 1
  target_seqs = tf.reverse_sequence(target_seqs, target_lens, 1)\<close>
  The result is the pair of the loss targets and their lengths.
\<close>

definition add_eow :: "int tensor2 \<Rightarrow> int list \<Rightarrow> int \<Rightarrow> error + (int tensor2 \<times> int list)" where
  "add_eow target_seqs target_lens eow =
     (case reverse_sequence target_seqs target_lens of
        Inl e \<Rightarrow> Inl e
      | Inr reversed \<Rightarrow>
          (let padded = pad_front eow reversed;
               target_lens1 = map (\<lambda>l. l + 1) target_lens
           in case reverse_sequence padded target_lens1 of
                Inl e \<Rightarrow> Inl e
              | Inr target_seqs1 \<Rightarrow> Inr (target_seqs1, target_lens1)))"

text \<open>
  \<open>decode_lemmas\<close>:
  \<^verbatim>\<open>target_seqs_bow = tf.pad(target_seqs, [[0, 0], [1, 0]], constant_values=bow)[:, :-1]\<close>
  These are the ids whose embeddings the training helper feeds to the decoder: the input
  of word \<open>w\<close> at step \<open>t\<close> is entry \<open>t\<close> of row \<open>w\<close>.
\<close>

definition target_seqs_bow :: "int tensor2 \<Rightarrow> int \<Rightarrow> int tensor2" where
  "target_seqs_bow target_seqs bow = drop_last_col (pad_front bow target_seqs)"

section \<open>Sequencing of failing computations\<close>

text \<open>
  A Python loop or comprehension whose body may raise: the results in order, or the first
  error.
\<close>

fun mapM :: "('a \<Rightarrow> error + 'b) \<Rightarrow> 'a list \<Rightarrow> error + 'b list" where
  "mapM f [] = Inr []"
| "mapM f (x # xs) =
     (case f x of
        Inl e \<Rightarrow> Inl e
      | Inr y \<Rightarrow> (case mapM f xs of Inl e \<Rightarrow> Inl e | Inr ys \<Rightarrow> Inr (y # ys)))"

section \<open>The tag heads\<close>

text \<open>
  \<open>tf.argmax\<close> over the last axis: an index of a largest entry (the first one here), refused
  on an empty axis.
\<close>

fun argmax_from :: "nat \<Rightarrow> real \<Rightarrow> nat \<Rightarrow> real list \<Rightarrow> nat" where
  "argmax_from best bestv i [] = best"
| "argmax_from best bestv i (x # xs) =
     (if bestv < x then argmax_from i x (Suc i) xs else argmax_from best bestv (Suc i) xs)"

definition argmax :: "real list \<Rightarrow> error + int" where
  "argmax xs = (case xs of [] \<Rightarrow> Inl InvalidArgumentError
                | x # rest \<Rightarrow> Inr (int (argmax_from 0 x 1 rest)))"

text \<open>
  \<open>tf.stack(predictions, axis=-1)\<close> of tensors of one shape \<open>[sentences, words]\<close>: entry
  \<open>[s][w][i]\<close> of the result is entry \<open>[s][w]\<close> of tensor \<open>i\<close>. Stacking no tensor is
  refused.
\<close>

definition stack_last :: "'a list list list \<Rightarrow> error + 'a list list list" where
  "stack_last ts =
     (case ts of
        [] \<Rightarrow> Inl InvalidArgumentError
      | t0 # _ \<Rightarrow>
          Inr (map (\<lambda>s. map (\<lambda>w. map (\<lambda>t. t ! s ! w) ts) [0..<length (t0 ! s)]) [0..<length t0]))"

text \<open>
  \<open>compute_tags\<close>, the predictions. Each head \<open>i\<close> has a dense output layer of its own,
  created by \<open>tf.layers.dense(sentence_rnn_outputs_tags, tags)\<close>; the layer is a parameter
  here, a function from the RNN output of a word to the logits of the head's classes.
  \<^verbatim>\<open>for i, (tags, weight) in enumerate(num_tags):
      output_layer = tf.layers.dense(sentence_rnn_outputs_tags, tags)
      self.predictions.append(tf.argmax(output_layer, axis=2, output_type=tf.int32))
  self.predictions = tf.stack(self.predictions, axis=-1)\<close>
\<close>

definition head_predictions :: "(real list \<Rightarrow> real list) \<Rightarrow> real list list list \<Rightarrow> error + int list list" where
  "head_predictions dense sentence_rnn_outputs_tags =
     mapM (\<lambda>sentence. mapM (\<lambda>word. argmax (dense word)) sentence) sentence_rnn_outputs_tags"

definition compute_tags_predictions ::
  "(real list \<Rightarrow> real list) list \<Rightarrow> real list list list \<Rightarrow> error + int list list list" where
  "compute_tags_predictions heads sentence_rnn_outputs_tags =
     (case mapM (\<lambda>dense. head_predictions dense sentence_rnn_outputs_tags) heads of
        Inl e \<Rightarrow> Inl e
      | Inr predictions \<Rightarrow> stack_last predictions)"

section \<open>Python indexing\<close>

text \<open>
  \<open>xs[i]\<close> on a Python list or a numpy vector: a negative index counts from the end, an
  index outside the sequence raises \<open>IndexError\<close>.
\<close>

definition py_index :: "'a list \<Rightarrow> int \<Rightarrow> error + 'a" where
  "py_index xs i =
     (let n = int (length xs)
      in if 0 \<le> i \<and> i < n then Inr (xs ! nat i)
         else if - n \<le> i \<and> i < 0 then Inr (xs ! nat (n + i))
         else Inl IndexError)"

text \<open>\<open>m[i, j]\<close> on a numpy matrix, for loop indices \<open>i\<close>, \<open>j\<close> counted from zero.\<close>

definition index2 :: "'a list list \<Rightarrow> nat \<Rightarrow> nat \<Rightarrow> error + 'a" where
  "index2 m i j = (if i < length m \<and> j < length (m ! i) then Inr (m ! i ! j) else Inl IndexError)"

section \<open>CharTags\<close>

text \<open>
  One factor of the training data (\<open>train.factors[train.TAGS]\<close>): its vocabulary, its
  alphabet and its sentences. A string is a list of characters, one per code point.
\<close>

record factor =
  words :: "string list"
  alphabet :: "string list"
  strings :: "string list list"

text \<open>
  The fields of a \<open>CharTags\<close> object. The dictionaries \<open>_alphabet_maps[i]\<close> and \<open>_cache\<close>
  are association lists read with \<open>map_of\<close>; an assignment to a key puts the pair in front.
\<close>

record chartags =
  train_words :: "string list"
  train_alphabet :: "string list"
  taglen :: nat
  alphabet_maps :: "(string \<times> nat) list list"
  alphabets :: "string list list"
  cache :: "(int \<times> int list) list"

text \<open>
  The body of the loop over the positions of one tag in \<open>CharTags.__init__\<close>:
  \<^verbatim>\<open>if tag[i] not in self._alphabet_maps[i]:
      self._alphabet_maps[i][tag[i]] = len(self._alphabets[i])
      self._alphabets[i].append(tag[i])
  entry[i + 1] = self._alphabet_maps[i][tag[i]]\<close>
\<close>

definition init_char ::
  "string \<Rightarrow> (string \<times> nat) list list \<times> string list list \<times> int list \<Rightarrow> nat
   \<Rightarrow> (string \<times> nat) list list \<times> string list list \<times> int list" where
  "init_char tag st i =
     (case st of (maps, alphs, entry) \<Rightarrow>
        (let key = [tag ! i]
         in case map_of (maps ! i) key of
              None \<Rightarrow> (maps[i := (key, length (alphs ! i)) # maps ! i],
                        alphs[i := alphs ! i @ [key]],
                        entry[i + 1 := int (length (alphs ! i))])
            | Some v \<Rightarrow> (maps, alphs, entry[i + 1 := int v])))"

text \<open>
  The body of the loop over \<open>enumerate(train.factors[train.TAGS].words)\<close>: a tag of another
  length than \<open>_taglen\<close> is skipped; otherwise
  \<^verbatim>\<open>entry = np.zeros(self._taglen + 1, dtype=np.int32); entry[0] = tag_id\<close>, the positions
  are filled and \<^verbatim>\<open>self._cache[tag_id] = entry\<close>.
\<close>

definition init_tag ::
  "nat \<Rightarrow> (string \<times> nat) list list \<times> string list list \<times> (int \<times> int list) list \<Rightarrow> nat \<times> string
   \<Rightarrow> (string \<times> nat) list list \<times> string list list \<times> (int \<times> int list) list" where
  "init_tag n st p =
     (case st of (maps, alphs, cch) \<Rightarrow>
        (case p of (tag_id, tag) \<Rightarrow>
           if length tag \<noteq> n then st
           else (case foldl (init_char tag) (maps, alphs, (replicate (n + 1) 0)[0 := int tag_id]) [0..<n] of
                   (maps', alphs', entry) \<Rightarrow> (maps', alphs', (int tag_id, entry) # cch))))"

text \<open>
  \<open>CharTags.__init__\<close>. \<^verbatim>\<open>self._taglen = len(train.factors[train.TAGS].strings[0][0])\<close> raises
  when there is no first sentence or no first tag.
\<close>

definition CharTags_init :: "factor \<Rightarrow> error + chartags" where
  "CharTags_init train_tags =
     (case strings train_tags of
        [] \<Rightarrow> Inl IndexError
      | sentence0 # _ \<Rightarrow>
          (case sentence0 of
             [] \<Rightarrow> Inl IndexError
           | tag0 # _ \<Rightarrow>
               (let n = length tag0
                in case foldl (init_tag n)
                          (replicate n [(''<unk>'', 0)], replicate n [''<unk>''], [])
                          (enumerate 0 (words train_tags)) of
                     (maps, alphs, cch) \<Rightarrow>
                       Inr \<lparr>train_words = words train_tags, train_alphabet = alphabet train_tags,
                            taglen = n, alphabet_maps = maps, alphabets = alphs, cache = cch\<rparr>)))"

text \<open>
  One component of an entry outside the cache, in \<open>CharTags.encode\<close>:
  \<^verbatim>\<open>self._alphabet_maps[k].get(
      self._train_alphabet[seq[k] if seq[k] < len(self._train_alphabet) else 0], 0)\<close>
\<close>

definition encode_char :: "chartags \<Rightarrow> int list \<Rightarrow> nat \<Rightarrow> error + int" where
  "encode_char ct seq k =
     (let c = seq ! k;
          ix = (if c < int (length (train_alphabet ct)) then c else 0)
      in case py_index (train_alphabet ct) ix of
           Inl e \<Rightarrow> Inl e
         | Inr key \<Rightarrow> Inr (case map_of (alphabet_maps ct ! k) key of None \<Rightarrow> 0 | Some v \<Rightarrow> int v))"

text \<open>
  The entry \<open>tags[i, j]\<close> of \<open>CharTags.encode\<close> for \<open>tag_ids[i, j] = tag_id\<close> and
  \<open>seq_ids[i, j] = seq_id\<close>: the cached entry of a known tag; otherwise the tag id followed
  by the components of the character sequence, or by zeros when the sequence has another
  length than \<open>_taglen\<close>.
\<close>

definition encode_entry :: "chartags \<Rightarrow> int list list \<Rightarrow> int \<Rightarrow> int \<Rightarrow> error + int list" where
  "encode_entry ct seqs tag_id seq_id =
     (case map_of (cache ct) tag_id of
        Some entry \<Rightarrow> Inr entry
      | None \<Rightarrow>
          (case py_index seqs seq_id of
             Inl e \<Rightarrow> Inl e
           | Inr seq \<Rightarrow>
               if length seq = taglen ct
               then (case mapM (encode_char ct seq) [0..<taglen ct] of
                       Inl e \<Rightarrow> Inl e
                     | Inr cs \<Rightarrow> Inr (tag_id # cs))
               else Inr (tag_id # replicate (taglen ct) 0)))"

text \<open>
  \<open>CharTags.encode\<close>: the loops run over the shape of \<open>seq_ids\<close> and read \<open>tag_ids\<close> at the
  same indices.
\<close>

definition encode :: "chartags \<Rightarrow> int list list \<Rightarrow> int list list \<Rightarrow> int list list \<Rightarrow> error + int list list list" where
  "encode ct tag_ids seq_ids seqs =
     mapM (\<lambda>i. mapM (\<lambda>j. case index2 tag_ids i j of
                             Inl e \<Rightarrow> Inl e
                           | Inr tag_id \<Rightarrow> encode_entry ct seqs tag_id (seq_ids ! i ! j))
                    [0..<length (seq_ids ! i)])
          [0..<length seq_ids]"

text \<open>
  \<open>decode\<close> (the same code in \<open>WholeTags\<close>, \<open>CharTags\<close> and \<open>DictTags\<close>):
  \<^verbatim>\<open>for sentence in tags:
      result.append([self._train.factors[self._train.TAGS].words[tag[0]] for tag in sentence])\<close>
\<close>

definition decode :: "string list \<Rightarrow> int list list list \<Rightarrow> error + string list list" where
  "decode tag_words tags =
     mapM (\<lambda>sentence. mapM (\<lambda>tag. case py_index tag 0 of
                                        Inl e \<Rightarrow> Inl e
                                      | Inr t \<Rightarrow> py_index tag_words t) sentence) tags"

text \<open>The vocabulary word of every tag id of a matrix, position by position.\<close>

definition vocabulary_lookup :: "string list \<Rightarrow> int list list \<Rightarrow> error + string list list" where
  "vocabulary_lookup tag_words tag_ids = mapM (\<lambda>row. mapM (\<lambda>t. py_index tag_words t) row) tag_ids"

section \<open>Network.predict\<close>

text \<open>
  What one pass of the loop of \<open>predict\<close> gets from outside: \<open>sentence_lens\<close> from
  \<open>dataset.next_batch\<close>, and the tag predictions \<open>tp\<close> (\<open>[sentences, words, heads]\<close>), the
  lemma predictions \<open>lp\<close> (\<open>[words, steps]\<close>), their lengths \<open>lpl\<close> and the sense predictions
  \<open>senses\<close> from \<open>session.run\<close>.
\<close>

record batch =
  sentence_lens :: "nat list"
  tp :: "int list list list"
  lp :: "int list list"
  lpl :: "int list"
  senses :: "int list"

text \<open>\<^verbatim>\<open>''.join(alphabet[lp[i][j]] for j in range(lpl[i] - 1))\<close>\<close>

definition lemma_chars :: "string list \<Rightarrow> int list list \<Rightarrow> int list \<Rightarrow> nat \<Rightarrow> error + string" where
  "lemma_chars alph lp_rest lpl_rest i =
     (case py_index lpl_rest (int i) of
        Inl e \<Rightarrow> Inl e
      | Inr n \<Rightarrow>
          (case mapM (\<lambda>j. case py_index lp_rest (int i) of
                             Inl e \<Rightarrow> Inl e
                           | Inr row \<Rightarrow> (case py_index row (int j) of
                                          Inl e \<Rightarrow> Inl e
                                        | Inr c \<Rightarrow> py_index alph c))
                     [0..<nat (n - 1)] of
             Inl e \<Rightarrow> Inl e
           | Inr cs \<Rightarrow> Inr (concat cs)))"

text \<open>
  \<^verbatim>\<open>if not args.builtin_sense:
      if senses[i] > 0 and sense_words[senses[i]]:
          sword = sense_words[senses[i]]
          if sword and sword != "<pad>":
              lemmas[-1][-1] += "-{}".format(sword)\<close>
  The result is what is appended to the lemma.
\<close>

definition sense_suffix :: "bool \<Rightarrow> string list \<Rightarrow> int list \<Rightarrow> nat \<Rightarrow> error + string" where
  "sense_suffix builtin_sense sense_words senses_rest i =
     (if \<not> builtin_sense
      then (case py_index senses_rest (int i) of
              Inl e \<Rightarrow> Inl e
            | Inr s \<Rightarrow>
                if 0 < s
                then (case py_index sense_words s of
                        Inl e \<Rightarrow> Inl e
                      | Inr sword \<Rightarrow>
                          if sword \<noteq> []
                          then (if sword \<noteq> [] \<and> sword \<noteq> ''<pad>'' then Inr (''-'' @ sword) else Inr [])
                          else Inr [])
                else Inr [])
      else Inr [])"

text \<open>One pass of the loop \<open>for i in range(length)\<close>: the lemma of word \<open>i\<close>.\<close>

definition predict_word ::
  "bool \<Rightarrow> string list \<Rightarrow> string list \<Rightarrow> int list list \<Rightarrow> int list \<Rightarrow> int list \<Rightarrow> nat \<Rightarrow> error + string" where
  "predict_word builtin_sense alph sense_words lp_rest lpl_rest senses_rest i =
     (case lemma_chars alph lp_rest lpl_rest i of
        Inl e \<Rightarrow> Inl e
      | Inr l \<Rightarrow> (case sense_suffix builtin_sense sense_words senses_rest i of
                   Inl e \<Rightarrow> Inl e
                 | Inr suffix \<Rightarrow> Inr (l @ suffix)))"

text \<open>
  The loop \<open>for si, length in enumerate(sentence_lens)\<close> with
  \<^verbatim>\<open>lp, lpl, senses = lp[length:], lpl[length:], senses[length:]\<close> after every sentence and
  \<^verbatim>\<open>assert len(lpl) == 0\<close> after the last.
\<close>

fun predict_sentences ::
  "bool \<Rightarrow> string list \<Rightarrow> string list \<Rightarrow> nat list \<Rightarrow> int list list \<Rightarrow> int list \<Rightarrow> int list
   \<Rightarrow> error + string list list" where
  "predict_sentences builtin_sense alph sense_words [] lp_rest lpl_rest senses_rest =
     (if length lpl_rest = 0 then Inr [] else Inl AssertionError)"
| "predict_sentences builtin_sense alph sense_words (len # lens) lp_rest lpl_rest senses_rest =
     (case mapM (predict_word builtin_sense alph sense_words lp_rest lpl_rest senses_rest) [0..<len] of
        Inl e \<Rightarrow> Inl e
      | Inr sentence \<Rightarrow>
          (case predict_sentences builtin_sense alph sense_words lens
                  (drop len lp_rest) (drop len lpl_rest) (drop len senses_rest) of
             Inl e \<Rightarrow> Inl e
           | Inr sentences \<Rightarrow> Inr (sentence # sentences)))"

text \<open>
  The body of the loop over the batches: \<^verbatim>\<open>tags.extend(args.tags.decode(tp))\<close>, then the
  lemmas of the sentences. The result is what the batch adds to \<open>lemmas\<close> and to \<open>tags\<close>.
\<close>

definition predict_batch ::
  "bool \<Rightarrow> string list \<Rightarrow> string list \<Rightarrow> string list \<Rightarrow> batch
   \<Rightarrow> error + (string list list \<times> string list list)" where
  "predict_batch builtin_sense tag_words alph sense_words b =
     (case decode tag_words (tp b) of
        Inl e \<Rightarrow> Inl e
      | Inr batch_tags \<Rightarrow>
          (case predict_sentences builtin_sense alph sense_words
                  (sentence_lens b) (lp b) (lpl b) (senses b) of
             Inl e \<Rightarrow> Inl e
           | Inr batch_lemmas \<Rightarrow> Inr (batch_lemmas, batch_tags)))"

fun predict_loop ::
  "bool \<Rightarrow> string list \<Rightarrow> string list \<Rightarrow> string list \<Rightarrow> batch list
   \<Rightarrow> string list list \<Rightarrow> string list list \<Rightarrow> error + (string list list \<times> string list list)" where
  "predict_loop builtin_sense tag_words alph sense_words [] lemmas_acc tags_acc = Inr (lemmas_acc, tags_acc)"
| "predict_loop builtin_sense tag_words alph sense_words (b # bs) lemmas_acc tags_acc =
     (case predict_batch builtin_sense tag_words alph sense_words b of
        Inl e \<Rightarrow> Inl e
      | Inr r \<Rightarrow> predict_loop builtin_sense tag_words alph sense_words bs
                  (lemmas_acc @ fst r) (tags_acc @ snd r))"

text \<open>
  \<open>Network.predict\<close> over the batches of one epoch; \<open>tag_words\<close> is the tag vocabulary of
  \<open>args.tags\<close>, \<open>alph\<close> the lemma alphabet and \<open>sense_words\<close> the sense vocabulary of the
  dataset.
\<close>

definition predict ::
  "bool \<Rightarrow> string list \<Rightarrow> string list \<Rightarrow> string list \<Rightarrow> batch list
   \<Rightarrow> error + (string list list \<times> string list list)" where
  "predict builtin_sense tag_words alph sense_words batches =
     predict_loop builtin_sense tag_words alph sense_words batches [] []"






section \<open>Inference decoding of the lemmas\<close>

text \<open>
  \<open>tf.reduce_max\<close> of an \<open>int32\<close> vector; over no element it is the least \<open>int32\<close>.
\<close>

definition reduce_max :: "int list \<Rightarrow> int" where
  "reduce_max xs = fold max xs (- 2147483648)"

text \<open>
  Both decoders of \<open>decode_lemmas\<close> are run with
  \<^verbatim>\<open>maximum_iterations=tf.reduce_max(self.charseq_lens) + 10\<close>.
\<close>

definition maximum_iterations :: "int list \<Rightarrow> int" where
  "maximum_iterations charseq_lens = reduce_max charseq_lens + 10"

text \<open>An operation on the entries of a tensor that may be refused on an entry.\<close>

definition tensor2_mapM :: "('a \<Rightarrow> error + 'b) \<Rightarrow> 'a tensor2 \<Rightarrow> error + 'b tensor2" where
  "tensor2_mapM f t =
     (case mapM (\<lambda>row. mapM f row) (rows t) of
        Inl e \<Rightarrow> Inl e
      | Inr rs \<Rightarrow> Inr (Tensor2 (ncols t) rs))"

text \<open>
  The greedy branch (\<open>if not args.beams\<close>). The framework's
  \<open>dynamic_decode\<close> of the greedy decoder is the parameter \<open>greedy_decode\<close>: given
  \<open>maximum_iterations\<close> it returns \<open>pred_outputs.rnn_output\<close> (\<open>[words, steps]\<close> of logit
  vectors) and the sequence lengths.
  \<^verbatim>\<open>pred_outputs, _, self.lemma_prediction_lengths = dynamic_decode(decoder=pred_decoder,
      maximum_iterations=tf.reduce_max(self.charseq_lens) + 10)
  self.lemma_predictions = tf.argmax(pred_outputs.rnn_output, axis=2, output_type=tf.int32)\<close>
\<close>

definition greedy_predictions ::
  "(int \<Rightarrow> real list tensor2 \<times> int list) \<Rightarrow> int list \<Rightarrow> error + (int tensor2 \<times> int list)" where
  "greedy_predictions greedy_decode charseq_lens =
     (case greedy_decode (maximum_iterations charseq_lens) of
        (rnn_output, lemma_prediction_lengths) \<Rightarrow>
          (case tensor2_mapM argmax rnn_output of
             Inl e \<Rightarrow> Inl e
           | Inr lemma_predictions \<Rightarrow> Inr (lemma_predictions, lemma_prediction_lengths)))"

text \<open>
  What the framework's \<open>dynamic_decode\<close> of the beam search decoder returns, as far as the
  program and the claims read it: \<open>dec_outputs.predicted_ids\<close> and
  \<open>dec_outputs.beam_search_decoder_output.scores\<close>, both \<open>[words, steps]\<close> of vectors with
  one entry per beam.
\<close>

record beam_search_output =
  predicted_ids :: "int list tensor2"
  scores :: "real list tensor2"

text \<open>
  The beam search branch. The framework's \<open>dynamic_decode\<close> of the beam search decoder is
  the parameter \<open>beam_decode\<close>, given \<open>beam_width\<close> and \<open>maximum_iterations\<close>.
  \<^verbatim>\<open>pred_decoder = tf.contrib.seq2seq.BeamSearchDecoder(..., beam_width=args.beams, ...)
  dec_outputs, dec_state, dec_lens = tf.contrib.seq2seq.dynamic_decode(decoder=pred_decoder,
      maximum_iterations=tf.reduce_max(self.charseq_lens) + 10)
  self.lemma_predictions = dec_outputs.predicted_ids[:, :, 0]
  self.lemma_prediction_lengths = 1 + find_first(self.lemma_predictions, eow)\<close>
\<close>

definition beam_predictions ::
  "(int \<Rightarrow> int \<Rightarrow> beam_search_output) \<Rightarrow> int \<Rightarrow> int list \<Rightarrow> int \<Rightarrow> error + (int tensor2 \<times> int list)" where
  "beam_predictions beam_decode beam_width charseq_lens eow =
     (let dec_outputs = beam_decode beam_width (maximum_iterations charseq_lens)
      in case tensor2_mapM (\<lambda>ids. case ids of [] \<Rightarrow> Inl InvalidArgumentError | b # _ \<Rightarrow> Inr b)
                (predicted_ids dec_outputs) of
           Inl e \<Rightarrow> Inl e
         | Inr lemma_predictions \<Rightarrow>
             (case beam_prediction_lengths lemma_predictions eow of
                Inl e \<Rightarrow> Inl e
              | Inr lemma_prediction_lengths \<Rightarrow> Inr (lemma_predictions, lemma_prediction_lengths)))"

text \<open>
  The predictions of \<open>decode_lemmas\<close>. \<open>args.beams\<close> is an optional integer (\<open>--beams\<close>,
  \<open>default=None\<close>); \<open>not args.beams\<close> holds for \<open>None\<close> and for \<open>0\<close>.
\<close>

definition decode_lemmas_predictions ::
  "int option \<Rightarrow> (int \<Rightarrow> real list tensor2 \<times> int list) \<Rightarrow> (int \<Rightarrow> int \<Rightarrow> beam_search_output)
   \<Rightarrow> int list \<Rightarrow> int \<Rightarrow> error + (int tensor2 \<times> int list)" where
  "decode_lemmas_predictions beams greedy_decode beam_decode charseq_lens eow =
     (case beams of
        None \<Rightarrow> greedy_predictions greedy_decode charseq_lens
      | Some k \<Rightarrow>
          if k = 0 then greedy_predictions greedy_decode charseq_lens
          else beam_predictions beam_decode k charseq_lens eow)"

text \<open>
  What the framework documents of \<open>dynamic_decode\<close>, as far as the claims need it: for a
  bound \<open>m \<ge> 0\<close> the outputs have one entry per step in every row and at most \<open>m\<close> steps,
  and no recorded sequence length exceeds the number of steps.
\<close>

definition greedy_contract :: "(int \<Rightarrow> real list tensor2 \<times> int list) \<Rightarrow> bool" where
  "greedy_contract greedy_decode \<longleftrightarrow>
     (\<forall>m. 0 \<le> m \<longrightarrow>
        wf_tensor2 (fst (greedy_decode m))
        \<and> int (ncols (fst (greedy_decode m))) \<le> m
        \<and> list_all (\<lambda>l. l \<le> int (ncols (fst (greedy_decode m)))) (snd (greedy_decode m)))"

definition beam_contract :: "(int \<Rightarrow> int \<Rightarrow> beam_search_output) \<Rightarrow> bool" where
  "beam_contract beam_decode \<longleftrightarrow>
     (\<forall>k m. 0 \<le> m \<longrightarrow>
        wf_tensor2 (predicted_ids (beam_decode k m))
        \<and> int (ncols (predicted_ids (beam_decode k m))) \<le> m)"


section \<open>Training of the lemma decoder\<close>

text \<open>
  \<open>tf.nn.embedding_lookup(params, ids)\<close>: the row of \<open>params\<close> for every id; an id outside
  the rows is refused at run time.
\<close>

definition embedding_lookup :: "'e list \<Rightarrow> int tensor2 \<Rightarrow> error + 'e tensor2" where
  "embedding_lookup params ids =
     tensor2_mapM (\<lambda>i. if 0 \<le> i \<and> i < int (length params) then Inr (params ! nat i)
                        else Inl InvalidArgumentError) ids"

text \<open>
  A helper of the framework's decoders, as a decoder uses it: \<open>initialize\<close> gives the
  inputs of the first step, one per word, and \<open>next_inputs time sample_ids\<close> gives the inputs
  of step \<open>time + 1\<close>, where \<open>sample_ids\<close> are the ids the decoder itself predicted at step
  \<open>time\<close>.
\<close>

record 'e helper =
  initialize :: "'e list"
  next_inputs :: "nat \<Rightarrow> int list \<Rightarrow> 'e list"

text \<open>\<open>tf.sequence_mask(lengths)\<close>: \<open>max(lengths)\<close> columns, entry \<open>t\<close> of a row set below its length.\<close>

definition sequence_mask :: "int list \<Rightarrow> bool tensor2" where
  "sequence_mask lens =
     Tensor2 (nat (reduce_max lens))
       (map (\<lambda>l. map (\<lambda>t. int t < l) [0..<nat (reduce_max lens)]) lens)"

text \<open>
  What the training part of \<open>decode_lemmas\<close> builds: the helper, the outputs of the training
  decoder, and the labels and weights handed to the loss.
\<close>

record 'e lemma_training =
  train_helper :: "'e helper"
  train_logits :: "real list tensor2"
  lemma_predictions_training :: "int tensor2"
  loss_labels :: "int tensor2"
  loss_weights :: "bool tensor2"

text \<open>
  \<open>Network.construct\<close> and \<open>decode_lemmas\<close>, the training path. The framework's
  \<open>TrainingHelper\<close> is the parameter \<open>training_helper\<close>, and \<open>dynamic_decode\<close> of a
  \<open>BasicDecoder\<close> over the attention cell with a given helper is the parameter
  \<open>basic_decode\<close>, returning \<open>rnn_output\<close> and \<open>sample_id\<close>.
  \<^verbatim>\<open>target_seqs_bow = tf.pad(target_seqs, [[0, 0], [1, 0]], constant_values=bow)[:, :-1]
  tseq_emb = tf.nn.embedding_lookup(tchar_emb, target_seqs_bow)
  train_helper = tf.contrib.seq2seq.TrainingHelper(tseq_emb, sequence_length=target_lens)
  train_decoder = tf.contrib.seq2seq.BasicDecoder(cell=train_cell, helper=train_helper, ...)
  train_outputs, _, _ = tf.contrib.seq2seq.dynamic_decode(decoder=train_decoder)
  train_logits = train_outputs.rnn_output
  self.lemma_predictions_training = train_outputs.sample_id
  loss_lem = tf.losses.sparse_softmax_cross_entropy(target_seqs, train_logits,
      weights=tf.sequence_mask(target_lens, dtype=tf.float32))\<close>
  Here \<open>target_seqs\<close> and \<open>target_lens\<close> are those with the end-of-word token added; the
  loss with \<open>lem_smoothing\<close> takes the same labels and weights.
\<close>

definition decode_lemmas_training ::
  "('e tensor2 \<Rightarrow> int list \<Rightarrow> 'e helper) \<Rightarrow> ('e helper \<Rightarrow> real list tensor2 \<times> int tensor2) \<Rightarrow> 'e list
   \<Rightarrow> int tensor2 \<Rightarrow> int list \<Rightarrow> int \<Rightarrow> int \<Rightarrow> error + 'e lemma_training" where
  "decode_lemmas_training training_helper basic_decode tchar_emb target_seqs0 target_lens0 bow eow =
     (case add_eow target_seqs0 target_lens0 eow of
        Inl e \<Rightarrow> Inl e
      | Inr (target_seqs, target_lens) \<Rightarrow>
          (case embedding_lookup tchar_emb (target_seqs_bow target_seqs bow) of
             Inl e \<Rightarrow> Inl e
           | Inr tseq_emb \<Rightarrow>
               (let h = training_helper tseq_emb target_lens
                in case basic_decode h of
                     (rnn_output, sample_id) \<Rightarrow>
                       Inr \<lparr>train_helper = h, train_logits = rnn_output,
                            lemma_predictions_training = sample_id,
                            loss_labels = target_seqs,
                            loss_weights = sequence_mask target_lens\<rparr>)))"

text \<open>The labels the loss counts for every word: those whose weight is set.\<close>

definition counted_labels :: "int tensor2 \<Rightarrow> bool tensor2 \<Rightarrow> int list list" where
  "counted_labels labels weights =
     map2 (\<lambda>row ws. map fst (filter snd (zip row ws))) (rows labels) (rows weights)"

text \<open>
  What the framework documents of \<open>TrainingHelper\<close>: it only reads its inputs. For a word
  whose sequence has not ended, the input of the first step is entry 0 of the word's row
  and the input of step \<open>time + 1\<close> is entry \<open>time + 1\<close>, whatever ids were sampled.
\<close>

definition training_helper_contract :: "('e tensor2 \<Rightarrow> int list \<Rightarrow> 'e helper) \<Rightarrow> bool" where
  "training_helper_contract training_helper \<longleftrightarrow>
     (\<forall>inputs sequence_length w.
        wf_tensor2 inputs \<and> length sequence_length = length (rows inputs) \<and> w < length (rows inputs)
        \<longrightarrow> (0 < sequence_length ! w
                \<longrightarrow> initialize (training_helper inputs sequence_length) ! w = rows inputs ! w ! 0)
            \<and> (\<forall>time sample_ids.
                  int time + 1 < sequence_length ! w
                  \<longrightarrow> next_inputs (training_helper inputs sequence_length) time sample_ids ! w
                        = rows inputs ! w ! (time + 1)))"


section \<open>Properties of find_first\<close>

lemma first_pos_le: "first_pos xs v \<le> length xs"
  by (induction xs) auto

lemma first_pos_less: "v \<in> set xs \<Longrightarrow> first_pos xs v < length xs"
  by (induction xs) auto

lemma first_pos_absent: "v \<notin> set xs \<Longrightarrow> first_pos xs v = length xs"
  by (induction xs) auto

lemma first_pos_hit: "v \<in> set xs \<Longrightarrow> xs ! first_pos xs v = v"
  by (induction xs) auto

lemma first_pos_least: "j < first_pos xs v \<Longrightarrow> xs ! j \<noteq> v"
proof (induction xs arbitrary: j)
  case Nil
  then show ?case by simp
next
  case (Cons x xs)
  then show ?case by (cases j) (auto split: if_splits)
qed

lemma step_fst: "fst (step val vlen (ix, poss) col) = ix + 1"
  by (simp add: step_def Let_def)

lemma step_snd_length: "length poss = h \<Longrightarrow> length col = h \<Longrightarrow> length (snd (step val vlen (ix, poss) col)) = h"
  by (simp add: step_def Let_def)

lemma step_snd_nth:
  "length poss = h \<Longrightarrow> length col = h \<Longrightarrow> b < h \<Longrightarrow>
   snd (step val vlen (ix, poss) col) ! b = min (poss ! b) (if val = col ! b then ix else vlen)"
  by (simp add: step_def Let_def)

lemma scan_length: "length (scan f xs st) = length xs"
  by (induction xs arbitrary: st) auto

lemma scan_Nil_iff: "scan f xs st = [] \<longleftrightarrow> xs = []"
  by (cases xs) auto

lemma scan_last_foldl: "xs \<noteq> [] \<Longrightarrow> last (scan f xs st) = foldl f st xs"
  by (induction xs arbitrary: st) (auto simp: scan_Nil_iff)

lemma foldl_step_nth:
  assumes "list_all (\<lambda>c. length c = h) cols" "length poss = h" "b < h"
    "ix + int (length cols) \<le> vlen" "poss ! b \<le> vlen"
  shows "length (snd (foldl (step val vlen) (ix, poss) cols)) = h \<and>
    snd (foldl (step val vlen) (ix, poss) cols) ! b =
      min (poss ! b) (if val \<in> set (map (\<lambda>c. c ! b) cols)
                      then ix + int (first_pos (map (\<lambda>c. c ! b) cols) val) else vlen)"
  using assms
proof (induction cols arbitrary: ix poss)
  case Nil
  then show ?case by simp
next
  case (Cons c cs)
  obtain poss' where st: "step val vlen (ix, poss) c = (ix + 1, poss')"
    by (simp add: step_def Let_def)
  have lc: "length c = h" using Cons.prems(1) by simp
  have lp: "length poss' = h" using step_snd_length[OF Cons.prems(2) lc, of val vlen ix] st by simp
  have pb: "poss' ! b = min (poss ! b) (if val = c ! b then ix else vlen)"
    using step_snd_nth[OF Cons.prems(2) lc Cons.prems(3), of val vlen ix] st by simp
  have ih: "length (snd (foldl (step val vlen) (ix + 1, poss') cs)) = h \<and>
    snd (foldl (step val vlen) (ix + 1, poss') cs) ! b =
      min (poss' ! b) (if val \<in> set (map (\<lambda>c. c ! b) cs)
                      then ix + 1 + int (first_pos (map (\<lambda>c. c ! b) cs) val) else vlen)"
    using Cons.IH[of poss' "ix + 1"] Cons.prems lp pb by simp
  have bound: "int (first_pos (map (\<lambda>c. c ! b) cs) val) \<le> int (length cs)"
    using first_pos_le[of "map (\<lambda>c. c ! b) cs" val] by simp
  show ?case
    using ih pb st bound Cons.prems(4) by (auto simp: min_def)
qed


lemma foldl_step_length:
  "list_all (\<lambda>c. length c = h) cols \<Longrightarrow> length poss = h \<Longrightarrow>
   length (snd (foldl (step val vlen) (ix, poss) cols)) = h"
proof (induction cols arbitrary: ix poss)
  case Nil
  then show ?case by simp
next
  case (Cons c cs)
  have "step val vlen (ix, poss) c = (ix + 1, snd (step val vlen (ix, poss) c))"
    by (simp add: step_def Let_def)
  moreover have "length (snd (step val vlen (ix, poss) c)) = h"
    using Cons.prems by (simp add: step_snd_length)
  ultimately show ?case using Cons.IH[of "snd (step val vlen (ix, poss) c)" "ix + 1"] Cons.prems
    by simp
qed

lemma transposed_column:
  assumes "list_all (\<lambda>r. length r = c) rs" "b < length rs"
  shows "map (\<lambda>col. col ! b) (map (\<lambda>j. map (\<lambda>r. r ! j) rs) [0..<c]) = rs ! b"
proof -
  have "length (rs ! b) = c" using assms by (simp add: list_all_length)
  then have "map (\<lambda>j. rs ! b ! j) [0..<c] = rs ! b" by (metis map_nth)
  then show ?thesis using assms(2) by (simp add: comp_def)
qed

lemma find_first_eq:
  assumes wf: "wf_tensor2 vec" and n: "0 < ncols vec"
  shows "find_first vec v True = Inr (map (\<lambda>r. int (first_pos r v)) (rows vec))"
proof -
  define rs where "rs = rows vec"
  define c where "c = ncols vec"
  define cols where "cols = map (\<lambda>j. map (\<lambda>r. r ! j) rs) [0..<c]"
  define h where "h = length rs"
  define vlen where "vlen = int c"
  define out where "out = scan (step v vlen) cols (0, replicate h vlen)"
  have rsc: "list_all (\<lambda>r. length r = c) rs" using wf by (simp add: wf_tensor2_def rs_def c_def)
  have cols_ne: "cols \<noteq> []" using n by (simp add: cols_def c_def)
  have lcols: "length cols = c" by (simp add: cols_def)
  have colsh: "list_all (\<lambda>col. length col = h) cols" by (simp add: cols_def h_def list_all_iff)
  have out_ne: "out \<noteq> []" using cols_ne by (simp add: out_def scan_Nil_iff)
  have last_out: "last out = foldl (step v vlen) (0, replicate h vlen) cols"
    unfolding out_def by (rule scan_last_foldl[OF cols_ne])
  have ff: "find_first vec v True = Inr (snd (last out))"
  proof -
    obtain p ps where ps: "map snd out = p # ps" using out_ne by (cases out) auto
    have "last (map snd out) = snd (last out)" using out_ne by (simp add: last_map)
    then show ?thesis using ps
      by (simp add: find_first_def tf_transpose_def Let_def rs_def[symmetric] c_def[symmetric]
            cols_def[symmetric] h_def[symmetric] vlen_def[symmetric] lcols out_def[symmetric])
  qed
  have len_out: "length (snd (last out)) = h"
    unfolding last_out by (rule foldl_step_length[OF colsh]) simp
  have nth: "snd (last out) ! b = int (first_pos (rs ! b) v)" if b: "b < h" for b
  proof -
    have *: "length (snd (foldl (step v vlen) (0, replicate h vlen) cols)) = h \<and>
      snd (foldl (step v vlen) (0, replicate h vlen) cols) ! b =
        min (replicate h vlen ! b) (if v \<in> set (map (\<lambda>c. c ! b) cols)
                      then 0 + int (first_pos (map (\<lambda>c. c ! b) cols) v) else vlen)"
      by (rule foldl_step_nth[OF colsh _ b]) (use b in \<open>simp_all add: lcols vlen_def\<close>)
    have col: "map (\<lambda>c. c ! b) cols = rs ! b"
      unfolding cols_def by (rule transposed_column[OF rsc]) (use b in \<open>simp add: h_def\<close>)
    have len: "length (rs ! b) = c" using rsc b by (simp add: list_all_length h_def)
    have "int (first_pos (rs ! b) v) \<le> vlen"
      using first_pos_le[of "rs ! b" v] len by (simp add: vlen_def)
    moreover have "v \<notin> set (rs ! b) \<Longrightarrow> int (first_pos (rs ! b) v) = vlen"
      using first_pos_absent[of v "rs ! b"] len by (simp add: vlen_def)
    ultimately show ?thesis using * b by (auto simp: last_out col min_def)
  qed
  have "snd (last out) = map (\<lambda>r. int (first_pos r v)) rs"
  proof (rule nth_equalityI)
    show "length (snd (last out)) = length (map (\<lambda>r. int (first_pos r v)) rs)"
      using len_out by (simp add: h_def)
  next
    fix i assume "i < length (snd (last out))"
    then show "snd (last out) ! i = map (\<lambda>r. int (first_pos r v)) rs ! i"
      using nth[of i] len_out by (simp add: h_def)
  qed
  then show ?thesis using ff by (simp add: rs_def)
qed

text \<open>
  Claim C8, as amended. For a well-formed tensor of shape \<open>[h, n]\<close> with \<open>n \<ge> 1\<close>,
  \<open>find_first\<close> with \<open>transpose=True\<close> returns one position per row of the tensor (per
  column after transposition): the smallest index at which the value occurs in that row, and
  \<open>n\<close> when the value does not occur in it. In the beam search branch the prediction lengths
  are these positions plus one.
\<close>

theorem find_first_first_occurrence:
  assumes "wf_tensor2 vec" and "0 < ncols vec"
  shows "\<exists>res. find_first vec v True = Inr res \<and> length res = length (rows vec) \<and>
    (\<forall>b < length (rows vec).
       (if v \<in> set (rows vec ! b)
        then 0 \<le> res ! b \<and> nat (res ! b) < ncols vec \<and> rows vec ! b ! nat (res ! b) = v \<and>
             (\<forall>j < nat (res ! b). rows vec ! b ! j \<noteq> v)
        else res ! b = int (ncols vec))) \<and>
    beam_prediction_lengths vec v = Inr (map (\<lambda>p. 1 + p) res)"
proof -
  let ?res = "map (\<lambda>r. int (first_pos r v)) (rows vec)"
  have eq: "find_first vec v True = Inr ?res" by (rule find_first_eq[OF assms])
  have len: "length (rows vec ! b) = ncols vec" if "b < length (rows vec)" for b
    using assms(1) that by (simp add: wf_tensor2_def list_all_length)
  have pos: "if v \<in> set (rows vec ! b)
        then 0 \<le> ?res ! b \<and> nat (?res ! b) < ncols vec \<and> rows vec ! b ! nat (?res ! b) = v \<and>
             (\<forall>j < nat (?res ! b). rows vec ! b ! j \<noteq> v)
        else ?res ! b = int (ncols vec)" if b: "b < length (rows vec)" for b
  proof (cases "v \<in> set (rows vec ! b)")
    case True
    then show ?thesis
      using b len[OF b] first_pos_less[OF True] first_pos_hit[OF True]
        first_pos_least[of _ "rows vec ! b" v] by simp
  next
    case False
    then show ?thesis using b len[OF b] first_pos_absent[OF False] by simp
  qed
  have beam: "beam_prediction_lengths vec v = Inr (map (\<lambda>p. 1 + p) ?res)"
    by (simp add: beam_prediction_lengths_def eq)
  have all: "\<forall>b < length (rows vec).
       (if v \<in> set (rows vec ! b)
        then 0 \<le> ?res ! b \<and> nat (?res ! b) < ncols vec \<and> rows vec ! b ! nat (?res ! b) = v \<and>
             (\<forall>j < nat (?res ! b). rows vec ! b ! j \<noteq> v)
        else ?res ! b = int (ncols vec))"
    using pos by blast
  have "length ?res = length (rows vec)" by simp
  with eq all beam show ?thesis by blast
qed

theorem find_first_first_occurrence_witness:
  "wf_tensor2 (Tensor2 3 [[5, 7, 7], [1, 2, 3], [7, 0, 0 :: int]]) \<and>
   0 < ncols (Tensor2 3 [[5, 7, 7], [1, 2, 3], [7, 0, 0 :: int]]) \<and>
   find_first (Tensor2 3 [[5, 7, 7], [1, 2, 3], [7, 0, 0]]) 7 True = Inr [1, 3, 0] \<and>
   beam_prediction_lengths (Tensor2 3 [[5, 7, 7], [1, 2, 3], [7, 0, 0]]) 7 = Inr [2, 4, 1]"
proof -
  have wf: "wf_tensor2 (Tensor2 3 [[5, 7, 7], [1, 2, 3], [7, 0, 0 :: int]])"
    by (simp add: wf_tensor2_def)
  have n: "0 < ncols (Tensor2 3 [[5, 7, 7], [1, 2, 3], [7, 0, 0 :: int]])" by simp
  obtain res where r: "find_first (Tensor2 3 [[5, 7, 7], [1, 2, 3], [7, 0, 0]]) 7 True = Inr res"
      "beam_prediction_lengths (Tensor2 3 [[5, 7, 7], [1, 2, 3], [7, 0, 0]]) 7 = Inr (map (\<lambda>p. 1 + p) res)"
    using find_first_first_occurrence[OF wf n, of 7] by blast
  have "find_first (Tensor2 3 [[5, 7, 7], [1, 2, 3], [7, 0, 0]]) 7 True = Inr [1, 3, 0]"
    by (simp add: find_first_def tf_transpose_def step_def Let_def upt_rec)
  then show ?thesis using wf n r by simp
qed

text \<open>
  The claim as stated covers every 2-D tensor. On a tensor of shape \<open>[2, 0]\<close> the scan
  runs over no element and the slice of its last row fails, where the claim promises the
  positions \<open>[0, 0]\<close>.
\<close>

theorem find_first_empty_counterexample:
  "find_first (Tensor2 0 [[], []]) 7 True = Inl InvalidArgumentError"
  by (simp add: find_first_def tf_transpose_def Let_def)

lemma find_first_no_step:
  assumes "ncols t = 0"
  shows "find_first t v True = Inl InvalidArgumentError"
  using assms by (simp add: find_first_def tf_transpose_def Let_def)

lemma beam_prediction_lengths_bound:
  assumes wf: "wf_tensor2 t" and r: "beam_prediction_lengths t eow = Inr lens"
  shows "0 < ncols t \<and> lens = map (\<lambda>r. 1 + int (first_pos r eow)) (rows t) \<and>
         list_all (\<lambda>l. l - 1 \<le> int (ncols t)) lens"
proof -
  have n: "0 < ncols t"
  proof (rule ccontr)
    assume "\<not> 0 < ncols t"
    then have "find_first t eow True = Inl InvalidArgumentError"
      by (intro find_first_no_step) simp
    then show False using r by (simp add: beam_prediction_lengths_def)
  qed
  have "find_first t eow True = Inr (map (\<lambda>r. int (first_pos r eow)) (rows t))"
    by (rule find_first_eq[OF wf n])
  then have l: "lens = map (\<lambda>r. 1 + int (first_pos r eow)) (rows t)"
    using r by (simp add: beam_prediction_lengths_def comp_def)
  have "first_pos r eow \<le> ncols t" if "r \<in> set (rows t)" for r
    using first_pos_le[of r eow] wf that by (simp add: wf_tensor2_def list_all_iff)
  then have "list_all (\<lambda>l. l - 1 \<le> int (ncols t)) lens"
    unfolding l by (simp add: list_all_iff)
  with n l show ?thesis by blast
qed


section \<open>Teacher forcing\<close>

lemma reverse_sequence_ok:
  assumes "wf_tensor2 t" "length ls = length (rows t)"
    "list_all (\<lambda>l. 0 \<le> l \<and> l \<le> int (ncols t)) ls"
  shows "reverse_sequence t ls =
     Inr (Tensor2 (ncols t) (map2 (\<lambda>r l. rev (take (nat l) r) @ drop (nat l) r) (rows t) ls))"
  using assms by (simp add: reverse_sequence_def)

lemma add_eow_row:
  assumes "l \<le> length r"
  shows "rev (take (Suc l) (eow # rev (take l r) @ drop l r)) @ drop (Suc l) (eow # rev (take l r) @ drop l r)
       = take l r @ [eow] @ drop l r"
  using assms by simp

lemma add_eow_eq:
  assumes wf: "wf_tensor2 target_seqs" and len: "length target_lens = length (rows target_seqs)"
    and rng: "list_all (\<lambda>l. 0 \<le> l \<and> l \<le> int (ncols target_seqs)) target_lens"
  shows "add_eow target_seqs target_lens eow =
     Inr (Tensor2 (ncols target_seqs + 1)
            (map2 (\<lambda>r l. take (nat l) r @ [eow] @ drop (nat l) r) (rows target_seqs) target_lens),
          map (\<lambda>l. l + 1) target_lens)"
proof -
  let ?rev1 = "Tensor2 (ncols target_seqs)
      (map2 (\<lambda>r l. rev (take (nat l) r) @ drop (nat l) r) (rows target_seqs) target_lens)"
  let ?lens1 = "map (\<lambda>l. l + 1) target_lens"
  have r1: "reverse_sequence target_seqs target_lens = Inr ?rev1"
    by (rule reverse_sequence_ok[OF wf len rng])
  have wf1: "wf_tensor2 (pad_front eow ?rev1)"
    using wf len rng
    by (auto simp: wf_tensor2_def pad_front_def list_all_iff set_zip)
  have len1: "length ?lens1 = length (rows (pad_front eow ?rev1))"
    using len by (simp add: pad_front_def)
  have rng1: "list_all (\<lambda>l. 0 \<le> l \<and> l \<le> int (ncols (pad_front eow ?rev1))) ?lens1"
    using rng by (auto simp: pad_front_def list_all_iff)
  have r2: "reverse_sequence (pad_front eow ?rev1) ?lens1 =
     Inr (Tensor2 (ncols (pad_front eow ?rev1))
       (map2 (\<lambda>r l. rev (take (nat l) r) @ drop (nat l) r) (rows (pad_front eow ?rev1)) ?lens1))"
    by (rule reverse_sequence_ok[OF wf1 len1 rng1])
  have rows_eq: "map2 (\<lambda>r l. rev (take (nat l) r) @ drop (nat l) r) (rows (pad_front eow ?rev1)) ?lens1
      = map2 (\<lambda>r l. take (nat l) r @ [eow] @ drop (nat l) r) (rows target_seqs) target_lens"
  proof (rule nth_equalityI)
    show "length (map2 (\<lambda>r l. rev (take (nat l) r) @ drop (nat l) r) (rows (pad_front eow ?rev1)) ?lens1)
      = length (map2 (\<lambda>r l. take (nat l) r @ [eow] @ drop (nat l) r) (rows target_seqs) target_lens)"
      using len by (simp add: pad_front_def)
  next
    fix i
    assume "i < length (map2 (\<lambda>r l. rev (take (nat l) r) @ drop (nat l) r) (rows (pad_front eow ?rev1)) ?lens1)"
    then have i: "i < length target_lens" "i < length (rows target_seqs)"
      using len by (simp_all add: pad_front_def)
    have li: "0 \<le> target_lens ! i" "nat (target_lens ! i) \<le> length (rows target_seqs ! i)"
      using rng wf i by (auto simp: list_all_length wf_tensor2_def)
    have "nat (target_lens ! i + 1) = Suc (nat (target_lens ! i))" using li(1) by simp
    then show "map2 (\<lambda>r l. rev (take (nat l) r) @ drop (nat l) r) (rows (pad_front eow ?rev1)) ?lens1 ! i
      = map2 (\<lambda>r l. take (nat l) r @ [eow] @ drop (nat l) r) (rows target_seqs) target_lens ! i"
      using i li(2) by (simp add: pad_front_def)
  qed
  show ?thesis
    by (simp add: add_eow_def r1 Let_def r2 rows_eq) (simp add: pad_front_def)
qed

lemma add_eow_inputs_and_targets:
  assumes wf: "wf_tensor2 target_seqs" and len: "length target_lens = length (rows target_seqs)"
    and rng: "list_all (\<lambda>l. 0 \<le> l \<and> l \<le> int (ncols target_seqs)) target_lens"
  shows "\<exists>tgt. add_eow target_seqs target_lens eow = Inr (tgt, map (\<lambda>l. l + 1) target_lens) \<and>
     (\<forall>w < length (rows target_seqs).
        rows tgt ! w = take (nat (target_lens ! w)) (rows target_seqs ! w) @ [eow]
                         @ drop (nat (target_lens ! w)) (rows target_seqs ! w) \<and>
        length (rows (target_seqs_bow tgt bow) ! w) = length (rows tgt ! w) \<and>
        rows (target_seqs_bow tgt bow) ! w ! 0 = bow \<and>
        (\<forall>t. 1 \<le> t \<and> t \<le> nat (target_lens ! w) \<longrightarrow>
             rows (target_seqs_bow tgt bow) ! w ! t = rows target_seqs ! w ! (t - 1)))"
proof -
  let ?tgt = "Tensor2 (ncols target_seqs + 1)
            (map2 (\<lambda>r l. take (nat l) r @ [eow] @ drop (nat l) r) (rows target_seqs) target_lens)"
  have eq: "add_eow target_seqs target_lens eow = Inr (?tgt, map (\<lambda>l. l + 1) target_lens)"
    by (rule add_eow_eq[OF wf len rng])
  have row: "rows ?tgt ! w = take (nat (target_lens ! w)) (rows target_seqs ! w) @ [eow]
                         @ drop (nat (target_lens ! w)) (rows target_seqs ! w) \<and>
        length (rows (target_seqs_bow ?tgt bow) ! w) = length (rows ?tgt ! w) \<and>
        rows (target_seqs_bow ?tgt bow) ! w ! 0 = bow \<and>
        (\<forall>t. 1 \<le> t \<and> t \<le> nat (target_lens ! w) \<longrightarrow>
             rows (target_seqs_bow ?tgt bow) ! w ! t = rows target_seqs ! w ! (t - 1))"
    if w: "w < length (rows target_seqs)" for w
  proof -
    define gold where "gold = rows target_seqs ! w"
    define l where "l = nat (target_lens ! w)"
    define xs where "xs = take l gold @ [eow] @ drop l gold"
    have ll: "l \<le> length gold"
      using rng wf w len by (auto simp: list_all_length wf_tensor2_def gold_def l_def)
    have r: "rows ?tgt ! w = xs" using w len by (simp add: xs_def gold_def l_def)
    have inp: "rows (target_seqs_bow ?tgt bow) ! w = butlast (bow # xs)"
      using w len by (simp add: target_seqs_bow_def drop_last_col_def pad_front_def xs_def gold_def l_def)
    have ne: "xs \<noteq> []" by (simp add: xs_def)
    have inp': "butlast (bow # xs) = bow # butlast xs" using ne by simp
    have later: "(bow # butlast xs) ! t = gold ! (t - 1)" if t: "1 \<le> t" "t \<le> l" for t
    proof -
      obtain k where k: "t = Suc k" using t(1) by (cases t) auto
      have kl: "k < l" using t(2) k by simp
      have "butlast xs ! k = xs ! k" using kl ll by (simp add: nth_butlast xs_def)
      also have "\<dots> = gold ! k" using kl ll by (simp add: xs_def nth_append)
      finally show ?thesis using k by simp
    qed
    show ?thesis
      unfolding r inp inp' using ne later by (simp add: xs_def gold_def l_def)
  qed
  show ?thesis using eq row by blast
qed

section \<open>Sequencing lemmas\<close>

lemma mapM_Inr_iff:
  "mapM f xs = Inr ys \<longleftrightarrow> length ys = length xs \<and> (\<forall>i < length xs. f (xs ! i) = Inr (ys ! i))"
proof (induction xs arbitrary: ys)
  case Nil
  then show ?case by auto
next
  case (Cons x xs)
  show ?case
  proof (cases "f x")
    case (Inl e)
    then show ?thesis by (auto simp: nth_Cons split: nat.splits)
  next
    case (Inr y)
    show ?thesis
    proof (cases "mapM f xs")
      case (Inl e)
      then have "\<not> (\<exists>zs. length zs = length xs \<and> (\<forall>i < length xs. f (xs ! i) = Inr (zs ! i)))"
        using Cons.IH by auto
      then have "\<not> (length ys = length (x # xs) \<and> (\<forall>i < length (x # xs). f ((x # xs) ! i) = Inr (ys ! i)))"
        by (cases ys) (auto, metis Suc_less_eq nth_Cons_Suc)
      then show ?thesis using Inl Inr by auto
    next
      case (Inr zs)
      note zs = this
      have z: "length zs = length xs" "\<forall>i < length xs. f (xs ! i) = Inr (zs ! i)"
        using Cons.IH[of zs] zs by auto
      show ?thesis
      proof
        assume "mapM f (x # xs) = Inr ys"
        then have "ys = y # zs" using \<open>f x = Inr y\<close> zs by simp
        then show "length ys = length (x # xs) \<and> (\<forall>i < length (x # xs). f ((x # xs) ! i) = Inr (ys ! i))"
          using z \<open>f x = Inr y\<close> by (auto simp: nth_Cons split: nat.splits)
      next
        assume a: "length ys = length (x # xs) \<and> (\<forall>i < length (x # xs). f ((x # xs) ! i) = Inr (ys ! i))"
        then obtain y' zs' where ys: "ys = y' # zs'" by (cases ys) auto
        have "y' = y" using a ys \<open>f x = Inr y\<close> by auto
        moreover have "mapM f xs = Inr zs'"
          using Cons.IH[of zs'] a ys by auto
        ultimately show "mapM f (x # xs) = Inr ys" using ys \<open>f x = Inr y\<close> by simp
      qed
    qed
  qed
qed

lemma mapM_total:
  assumes "\<forall>x \<in> set xs. \<exists>y. f x = Inr y"
  shows "\<exists>ys. mapM f xs = Inr ys"
  using assms by (induction xs) auto

section \<open>The multi-head tag classifier\<close>

lemma argmax_from_spec:
  assumes "best < i" "drop i ys = xs" "i \<le> length ys" "ys ! best = bestv" "\<forall>k < i. ys ! k \<le> bestv"
  shows "argmax_from best bestv i xs < length ys \<and>
         (\<forall>k < length ys. ys ! k \<le> ys ! argmax_from best bestv i xs)"
  using assms
proof (induction xs arbitrary: best bestv i)
  case Nil
  then have "length ys = i" by simp
  then show ?case using Nil by simp
next
  case (Cons x xs)
  have i: "i < length ys" using Cons.prems(2,3) by (cases "i = length ys") auto
  have x: "ys ! i = x" using Cons.prems(2) i by (metis nth_via_drop)
  have d: "drop (Suc i) ys = xs" using Cons.prems(2) by (metis drop_Suc tl_drop list.sel(3))
  show ?case
  proof (cases "bestv < x")
    case True
    have "\<forall>k < Suc i. ys ! k \<le> x"
      using Cons.prems(5) True x by (auto simp: less_Suc_eq intro: order_trans less_imp_le)
    then show ?thesis
      using Cons.IH[of i "Suc i" x] d i x True by simp
  next
    case False
    have "\<forall>k < Suc i. ys ! k \<le> bestv"
      using Cons.prems(5) False x by (auto simp: less_Suc_eq)
    then show ?thesis
      using Cons.IH[of best "Suc i" bestv] d i Cons.prems(1,4) False by simp
  qed
qed

lemma argmax_spec:
  assumes "xs \<noteq> []"
  shows "\<exists>p. argmax xs = Inr (int p) \<and> p < length xs \<and> (\<forall>k < length xs. xs ! k \<le> xs ! p)"
proof -
  obtain x rest where xs: "xs = x # rest" using assms by (cases xs) auto
  have "argmax_from 0 x 1 rest < length xs \<and>
         (\<forall>k < length xs. xs ! k \<le> xs ! argmax_from 0 x 1 rest)"
    by (rule argmax_from_spec) (simp_all add: xs)
  then show ?thesis by (auto simp: argmax_def xs)
qed

lemma head_predictions_spec:
  assumes "\<forall>x. dense x \<noteq> []"
  shows "\<exists>p. head_predictions dense rnn = Inr p \<and> length p = length rnn \<and>
     (\<forall>s < length rnn. length (p ! s) = length (rnn ! s) \<and>
        (\<forall>w < length (rnn ! s). argmax (dense (rnn ! s ! w)) = Inr (p ! s ! w)))"
proof -
  have word: "\<exists>y. argmax (dense x) = Inr y" for x
    using argmax_spec[of "dense x"] assms by blast
  have sent: "\<exists>ys. mapM (\<lambda>word. argmax (dense word)) sentence = Inr ys" for sentence
    by (rule mapM_total) (use word in blast)
  obtain p where p: "head_predictions dense rnn = Inr p"
    unfolding head_predictions_def using mapM_total[of rnn "\<lambda>sentence. mapM (\<lambda>word. argmax (dense word)) sentence"] sent
    by blast
  have "length p = length rnn \<and>
     (\<forall>s < length rnn. mapM (\<lambda>word. argmax (dense word)) (rnn ! s) = Inr (p ! s))"
    using p unfolding head_predictions_def mapM_Inr_iff by simp
  then show ?thesis using p by (auto simp: mapM_Inr_iff)
qed

lemma compute_tags_predictions_spec:
  assumes ne: "heads \<noteq> []" and cls: "\<forall>i < length heads. \<forall>x. (heads ! i) x \<noteq> []"
  shows "\<exists>preds. compute_tags_predictions heads rnn = Inr preds \<and> length preds = length rnn \<and>
     (\<forall>s < length rnn. length (preds ! s) = length (rnn ! s) \<and>
        (\<forall>w < length (rnn ! s). length (preds ! s ! w) = length heads \<and>
           (\<forall>i < length heads. argmax ((heads ! i) (rnn ! s ! w)) = Inr (preds ! s ! w ! i))))"
proof -
  have each: "\<exists>p. head_predictions dense rnn = Inr p" if d: "dense \<in> set heads" for dense
  proof -
    obtain i where "i < length heads" "heads ! i = dense" using d by (auto simp: in_set_conv_nth)
    then have "\<forall>x. dense x \<noteq> []" using cls by auto
    then show ?thesis using head_predictions_spec[of dense rnn] by blast
  qed
  obtain ps where ps: "mapM (\<lambda>dense. head_predictions dense rnn) heads = Inr ps"
    using mapM_total[of heads "\<lambda>dense. head_predictions dense rnn"] each by blast
  then have lps: "length ps = length heads"
    and hp: "\<forall>i < length heads. head_predictions (heads ! i) rnn = Inr (ps ! i)"
    by (simp_all add: mapM_Inr_iff)
  have shape: "length (ps ! i) = length rnn \<and>
     (\<forall>s < length rnn. length (ps ! i ! s) = length (rnn ! s) \<and>
        (\<forall>w < length (rnn ! s). argmax ((heads ! i) (rnn ! s ! w)) = Inr (ps ! i ! s ! w)))"
    if i: "i < length heads" for i
  proof -
    have "\<forall>x. (heads ! i) x \<noteq> []" using cls i by blast
    from head_predictions_spec[OF this, of rnn] show ?thesis using hp i by auto
  qed
  obtain p0 rest where p0: "ps = p0 # rest" using ne lps by (cases ps) auto
  have p0': "p0 = ps ! 0" by (simp add: p0)
  have h0: "0 < length heads" using ne by simp
  let ?preds = "map (\<lambda>s. map (\<lambda>w. map (\<lambda>t. t ! s ! w) ps) [0..<length (p0 ! s)]) [0..<length p0]"
  have res: "compute_tags_predictions heads rnn = Inr ?preds"
    by (simp add: compute_tags_predictions_def ps stack_last_def p0)
  have l0: "length p0 = length rnn" using shape[OF h0] p0' by simp
  have ls: "length (p0 ! s) = length (rnn ! s)" if "s < length rnn" for s
    using shape[OF h0] p0' that by simp
  have "length ?preds = length rnn" using l0 by simp
  moreover have "length (?preds ! s) = length (rnn ! s) \<and>
        (\<forall>w < length (rnn ! s). length (?preds ! s ! w) = length heads \<and>
           (\<forall>i < length heads. argmax ((heads ! i) (rnn ! s ! w)) = Inr (?preds ! s ! w ! i)))"
    if s: "s < length rnn" for s
    using s l0 ls[OF s] lps shape by simp
  ultimately show ?thesis using res by blast
qed

text \<open>
  Claim C7. With at least one head, each head's layer giving logits for at least one
  class, the predictions exist and have the shape \<open>[sentences, words, heads]\<close>: the entry of
  every word holds exactly one label per head, and the label of head \<open>i\<close> is an index of a
  largest logit among the classes of head \<open>i\<close>, the logits being the output of that head's
  own dense layer on the RNN output of the word.
\<close>

theorem multi_head_tag_predictions:
  assumes "heads \<noteq> []" and "list_all (\<lambda>dense. \<forall>x. dense x \<noteq> []) heads"
  shows "\<exists>preds. compute_tags_predictions heads rnn = Inr preds \<and> length preds = length rnn \<and>
     (\<forall>s < length rnn. length (preds ! s) = length (rnn ! s) \<and>
        (\<forall>w < length (rnn ! s). length (preds ! s ! w) = length heads \<and>
           (\<forall>i < length heads.
              0 \<le> preds ! s ! w ! i \<and>
              nat (preds ! s ! w ! i) < length ((heads ! i) (rnn ! s ! w)) \<and>
              (\<forall>c < length ((heads ! i) (rnn ! s ! w)).
                 (heads ! i) (rnn ! s ! w) ! c \<le> (heads ! i) (rnn ! s ! w) ! nat (preds ! s ! w ! i)))))"
proof -
  have cls: "\<forall>i < length heads. \<forall>x. (heads ! i) x \<noteq> []"
    using assms(2) by (simp add: list_all_length)
  obtain preds where preds: "compute_tags_predictions heads rnn = Inr preds" "length preds = length rnn"
    and shape: "\<forall>s < length rnn. length (preds ! s) = length (rnn ! s) \<and>
        (\<forall>w < length (rnn ! s). length (preds ! s ! w) = length heads \<and>
           (\<forall>i < length heads. argmax ((heads ! i) (rnn ! s ! w)) = Inr (preds ! s ! w ! i)))"
    using compute_tags_predictions_spec[OF assms(1) cls, of rnn] by blast
  have label: "0 \<le> preds ! s ! w ! i \<and>
              nat (preds ! s ! w ! i) < length ((heads ! i) (rnn ! s ! w)) \<and>
              (\<forall>c < length ((heads ! i) (rnn ! s ! w)).
                 (heads ! i) (rnn ! s ! w) ! c \<le> (heads ! i) (rnn ! s ! w) ! nat (preds ! s ! w ! i))"
    if s: "s < length rnn" and w: "w < length (rnn ! s)" and i: "i < length heads" for s w i
  proof -
    have a: "argmax ((heads ! i) (rnn ! s ! w)) = Inr (preds ! s ! w ! i)"
      using shape s w i by blast
    have "(heads ! i) (rnn ! s ! w) \<noteq> []" using cls i by blast
    from argmax_spec[OF this] a show ?thesis by auto
  qed
  have "\<forall>s < length rnn. length (preds ! s) = length (rnn ! s) \<and>
        (\<forall>w < length (rnn ! s). length (preds ! s ! w) = length heads \<and>
           (\<forall>i < length heads.
              0 \<le> preds ! s ! w ! i \<and>
              nat (preds ! s ! w ! i) < length ((heads ! i) (rnn ! s ! w)) \<and>
              (\<forall>c < length ((heads ! i) (rnn ! s ! w)).
                 (heads ! i) (rnn ! s ! w) ! c \<le> (heads ! i) (rnn ! s ! w) ! nat (preds ! s ! w ! i))))"
    using shape label by blast
  with preds show ?thesis by blast
qed

theorem multi_head_tag_predictions_witness:
  "[\<lambda>x. [x ! 0, x ! 1], \<lambda>x. [x ! 1, 2, 1 :: real]] \<noteq> [] \<and>
   list_all (\<lambda>dense. \<forall>x. dense x \<noteq> []) [\<lambda>x. [x ! 0, x ! 1], \<lambda>x. [x ! 1, 2, 1 :: real]] \<and>
   compute_tags_predictions [\<lambda>x. [x ! 0, x ! 1], \<lambda>x. [x ! 1, 2, 1]] [[[1, 5], [2, 0]]]
     = Inr [[[1, 0], [0, 1]]]"
proof -
  have ne: "[\<lambda>x. [x ! 0, x ! 1], \<lambda>x. [x ! 1, 2, 1 :: real]] \<noteq> []" by simp
  have cls: "list_all (\<lambda>dense. \<forall>x. dense x \<noteq> []) [\<lambda>x. [x ! 0, x ! 1], \<lambda>x. [x ! 1, 2, 1 :: real]]"
    by simp
  obtain preds where
    "compute_tags_predictions [\<lambda>x. [x ! 0, x ! 1], \<lambda>x. [x ! 1, 2, 1]] [[[1, 5], [2, 0]]] = Inr preds"
    using multi_head_tag_predictions[OF ne cls, of "[[[1, 5], [2, 0]]]"] by blast
  moreover have
    "compute_tags_predictions [\<lambda>x. [x ! 0, x ! 1], \<lambda>x. [x ! 1, 2, 1]] [[[1, 5], [2, 0]]]
       = Inr [[[1, 0], [0, 1]]]"
    by (simp add: compute_tags_predictions_def head_predictions_def argmax_def stack_last_def upt_rec)
  ultimately show ?thesis using ne cls by simp
qed


section \<open>Python indexing lemmas\<close>


lemma py_index_in_range:
  assumes "0 \<le> c" "c < int (length xs)"
  shows "py_index xs c = Inr (xs ! nat c)"
  using assms by (simp add: py_index_def)

section \<open>CharTags: encode and decode\<close>

lemma init_char_entry:
  assumes "init_char tag (maps, alphs, entry) i = (maps', alphs', entry')"
  shows "length entry' = length entry \<and> entry' ! 0 = entry ! 0"
  using assms by (auto simp: init_char_def Let_def split: option.splits)

lemma foldl_init_char_entry:
  assumes "foldl (init_char tag) (maps, alphs, entry) ks = (maps', alphs', entry')"
  shows "length entry' = length entry \<and> entry' ! 0 = entry ! 0"
  using assms
proof (induction ks arbitrary: maps alphs entry)
  case Nil
  then show ?case by simp
next
  case (Cons k ks)
  obtain m1 a1 e1 where s: "init_char tag (maps, alphs, entry) k = (m1, a1, e1)"
    by (cases "init_char tag (maps, alphs, entry) k") auto
  have "length e1 = length entry \<and> e1 ! 0 = entry ! 0" by (rule init_char_entry[OF s])
  moreover have "length entry' = length e1 \<and> entry' ! 0 = e1 ! 0"
    using Cons.IH[of m1 a1 e1] Cons.prems s by simp
  ultimately show ?case by simp
qed

lemma init_tag_cache:
  assumes "init_tag n (maps, alphs, cch) p = (maps', alphs', cch')"
    and "list_all (\<lambda>(k, e). e \<noteq> [] \<and> e ! 0 = k) cch"
  shows "list_all (\<lambda>(k, e). e \<noteq> [] \<and> e ! 0 = k) cch'"
proof -
  obtain tag_id tag where p: "p = (tag_id, tag)" by (cases p)
  show ?thesis
  proof (cases "length tag \<noteq> n")
    case True
    then show ?thesis using assms p by (simp add: init_tag_def)
  next
    case False
    obtain m1 a1 e1 where
      f: "foldl (init_char tag) (maps, alphs, (replicate (n + 1) 0)[0 := int tag_id]) [0..<n] = (m1, a1, e1)"
      by (cases "foldl (init_char tag) (maps, alphs, (replicate (n + 1) 0)[0 := int tag_id]) [0..<n]") auto
    have "length e1 = n + 1 \<and> e1 ! 0 = int tag_id"
      using foldl_init_char_entry[OF f] by simp
    then have "e1 \<noteq> [] \<and> e1 ! 0 = int tag_id" by auto
    moreover have "cch' = (int tag_id, e1) # cch"
      using assms(1) p False f by (simp add: init_tag_def)
    ultimately show ?thesis using assms(2) by simp
  qed
qed

lemma foldl_init_tag_cache:
  assumes "foldl (init_tag n) (maps, alphs, cch) ps = (maps', alphs', cch')"
    and "list_all (\<lambda>(k, e). e \<noteq> [] \<and> e ! 0 = k) cch"
  shows "list_all (\<lambda>(k, e). e \<noteq> [] \<and> e ! 0 = k) cch'"
  using assms
proof (induction ps arbitrary: maps alphs cch)
  case Nil
  then show ?case by simp
next
  case (Cons p ps)
  obtain m1 a1 c1 where s: "init_tag n (maps, alphs, cch) p = (m1, a1, c1)"
    by (cases "init_tag n (maps, alphs, cch) p") auto
  have "list_all (\<lambda>(k, e). e \<noteq> [] \<and> e ! 0 = k) c1"
    by (rule init_tag_cache[OF s Cons.prems(2)])
  then show ?case using Cons.IH[of m1 a1 c1] Cons.prems(1) s by simp
qed

lemma CharTags_init_cache:
  assumes "CharTags_init train_tags = Inr ct"
  shows "train_words ct = words train_tags \<and> list_all (\<lambda>(k, e). e \<noteq> [] \<and> e ! 0 = k) (cache ct)"
proof -
  obtain sentence0 rest where s: "strings train_tags = sentence0 # rest"
    using assms by (cases "strings train_tags") (auto simp: CharTags_init_def)
  obtain tag0 rest0 where t: "sentence0 = tag0 # rest0"
    using assms s by (cases sentence0) (auto simp: CharTags_init_def)
  define n where "n = length tag0"
  obtain maps alphs cch where
    f: "foldl (init_tag n) (replicate n [(''<unk>'', 0)], replicate n [''<unk>''], [])
          (enumerate 0 (words train_tags)) = (maps, alphs, cch)"
    by (cases "foldl (init_tag n) (replicate n [(''<unk>'', 0)], replicate n [''<unk>''], [])
          (enumerate 0 (words train_tags))") auto
  have ct: "ct = \<lparr>train_words = words train_tags, train_alphabet = alphabet train_tags,
                  taglen = n, alphabet_maps = maps, alphabets = alphs, cache = cch\<rparr>"
    using assms s t f by (simp add: CharTags_init_def Let_def n_def)
  have "list_all (\<lambda>(k, e). e \<noteq> [] \<and> e ! 0 = k) cch"
    by (rule foldl_init_tag_cache[OF f]) simp
  then show ?thesis using ct by simp
qed

lemma encode_entry_component0:
  assumes "encode_entry ct seqs tag_id seq_id = Inr entry"
    and "list_all (\<lambda>(k, e). e \<noteq> [] \<and> e ! 0 = k) (cache ct)"
  shows "entry \<noteq> [] \<and> entry ! 0 = tag_id"
proof (cases "map_of (cache ct) tag_id")
  case (Some e)
  then have "(tag_id, e) \<in> set (cache ct)" by (rule map_of_SomeD)
  then have "e \<noteq> [] \<and> e ! 0 = tag_id" using assms(2) by (auto simp: list_all_iff)
  moreover have "entry = e" using assms(1) Some by (simp add: encode_entry_def)
  ultimately show ?thesis by simp
next
  case None
  then show ?thesis using assms(1)
    by (auto simp: encode_entry_def split: sum.splits if_splits)
qed

lemma mapM_cong_nth:
  assumes "length xs = length ys" "\<forall>i < length xs. f (xs ! i) = g (ys ! i)"
  shows "mapM f xs = mapM g ys"
  using assms
proof (induction xs ys rule: list_induct2)
  case Nil
  then show ?case by simp
next
  case (Cons x xs y ys)
  have "f x = g y" using Cons.prems by (metis length_Cons nth_Cons_0 zero_less_Suc)
  moreover have "mapM f xs = mapM g ys"
  proof (rule Cons.IH)
    show "\<forall>i < length xs. f (xs ! i) = g (ys ! i)"
      using Cons.prems by (metis Suc_less_eq length_Cons nth_Cons_Suc)
  qed
  ultimately show ?case by (simp split: sum.splits)
qed


lemma mapM_upt_Inr_iff:
  "mapM f [0..<n] = Inr ys \<longleftrightarrow> length ys = n \<and> (\<forall>i < n. f i = Inr (ys ! i))"
  by (simp add: mapM_Inr_iff)

lemma encode_component0:
  assumes enc: "encode ct tag_ids seq_ids seqs = Inr enc"
    and inv: "list_all (\<lambda>(k, e). e \<noteq> [] \<and> e ! 0 = k) (cache ct)"
  shows "length enc = length seq_ids \<and>
     (\<forall>i < length seq_ids. length (enc ! i) = length (seq_ids ! i) \<and>
        (\<forall>j < length (seq_ids ! i).
           i < length tag_ids \<and> j < length (tag_ids ! i) \<and>
           enc ! i ! j \<noteq> [] \<and> enc ! i ! j ! 0 = tag_ids ! i ! j))"
proof -
  have l: "length enc = length seq_ids"
    and rows: "\<forall>i < length seq_ids.
       mapM (\<lambda>j. case index2 tag_ids i j of
                    Inl e \<Rightarrow> Inl e
                  | Inr tag_id \<Rightarrow> encode_entry ct seqs tag_id (seq_ids ! i ! j))
            [0..<length (seq_ids ! i)] = Inr (enc ! i)"
    using iffD1[OF mapM_upt_Inr_iff enc[unfolded encode_def]] by blast+
  have "length (enc ! i) = length (seq_ids ! i) \<and>
        (\<forall>j < length (seq_ids ! i).
           i < length tag_ids \<and> j < length (tag_ids ! i) \<and>
           enc ! i ! j \<noteq> [] \<and> enc ! i ! j ! 0 = tag_ids ! i ! j)" if i: "i < length seq_ids" for i
  proof -
    have li: "length (enc ! i) = length (seq_ids ! i)"
      and cells: "\<forall>j < length (seq_ids ! i).
         (case index2 tag_ids i j of
            Inl e \<Rightarrow> Inl e
          | Inr tag_id \<Rightarrow> encode_entry ct seqs tag_id (seq_ids ! i ! j)) = Inr (enc ! i ! j)"
      using iffD1[OF mapM_upt_Inr_iff rows[rule_format, OF i]] by blast+
    have "i < length tag_ids \<and> j < length (tag_ids ! i) \<and>
           enc ! i ! j \<noteq> [] \<and> enc ! i ! j ! 0 = tag_ids ! i ! j" if j: "j < length (seq_ids ! i)" for j
    proof -
      have c: "(case index2 tag_ids i j of
            Inl e \<Rightarrow> Inl e
          | Inr tag_id \<Rightarrow> encode_entry ct seqs tag_id (seq_ids ! i ! j)) = Inr (enc ! i ! j)"
        using cells j by blast
      then have ix: "i < length tag_ids \<and> j < length (tag_ids ! i)"
        by (auto simp: index2_def split: if_splits)
      then have "encode_entry ct seqs (tag_ids ! i ! j) (seq_ids ! i ! j) = Inr (enc ! i ! j)"
        using c by (simp add: index2_def)
      from encode_entry_component0[OF this inv] ix show ?thesis by simp
    qed
    then show ?thesis using li by blast
  qed
  then show ?thesis using l by blast
qed

lemma decode_of_component0:
  assumes "length enc = length tag_ids"
    and "\<forall>i < length tag_ids. length (enc ! i) = length (tag_ids ! i) \<and>
        (\<forall>j < length (tag_ids ! i). enc ! i ! j \<noteq> [] \<and> enc ! i ! j ! 0 = tag_ids ! i ! j)"
  shows "decode tag_words enc = vocabulary_lookup tag_words tag_ids"
  unfolding decode_def vocabulary_lookup_def
proof (rule mapM_cong_nth)
  show "length enc = length tag_ids" by (rule assms(1))
next
  show "\<forall>i<length enc.
       mapM (\<lambda>tag. case py_index tag 0 of Inl e \<Rightarrow> Inl e | Inr t \<Rightarrow> py_index tag_words t) (enc ! i) =
       mapM (py_index tag_words) (tag_ids ! i)"
  proof (intro allI impI)
    fix i assume "i < length enc"
    then have i: "i < length tag_ids" using assms(1) by simp
    show "mapM (\<lambda>tag. case py_index tag 0 of Inl e \<Rightarrow> Inl e | Inr t \<Rightarrow> py_index tag_words t) (enc ! i) =
       mapM (py_index tag_words) (tag_ids ! i)"
    proof (rule mapM_cong_nth)
      show "length (enc ! i) = length (tag_ids ! i)" using assms(2) i by blast
    next
      show "\<forall>j<length (enc ! i).
       (case py_index (enc ! i ! j) 0 of Inl e \<Rightarrow> Inl e | Inr t \<Rightarrow> py_index tag_words t) =
       py_index tag_words (tag_ids ! i ! j)"
      proof (intro allI impI)
        fix j assume "j < length (enc ! i)"
        then have "j < length (tag_ids ! i)" using assms(2) i by simp
        then have "enc ! i ! j \<noteq> [] \<and> enc ! i ! j ! 0 = tag_ids ! i ! j" using assms(2) i by blast
        then show "(case py_index (enc ! i ! j) 0 of Inl e \<Rightarrow> Inl e | Inr t \<Rightarrow> py_index tag_words t) =
          py_index tag_words (tag_ids ! i ! j)"
          by (simp add: py_index_def)
      qed
    qed
  qed
qed

lemma encode_char_returns:
  assumes "train_alphabet ct \<noteq> []" "0 \<le> seq ! k"
  shows "\<exists>c. encode_char ct seq k = Inr c"
proof -
  define ix where "ix = (if seq ! k < int (length (train_alphabet ct)) then seq ! k else 0)"
  have "0 \<le> ix \<and> ix < int (length (train_alphabet ct))"
    using assms by (auto simp: ix_def)
  then have "py_index (train_alphabet ct) ix = Inr (train_alphabet ct ! nat ix)"
    by (simp add: py_index_in_range)
  then show ?thesis by (simp add: encode_char_def Let_def ix_def[symmetric])
qed

lemma encode_entry_returns:
  assumes "train_alphabet ct \<noteq> []" "0 \<le> seq_id" "seq_id < int (length seqs)"
    and "list_all (list_all (\<lambda>c. 0 \<le> c)) seqs"
  shows "\<exists>entry. encode_entry ct seqs tag_id seq_id = Inr entry"
proof (cases "map_of (cache ct) tag_id")
  case (Some e)
  then show ?thesis by (simp add: encode_entry_def)
next
  case None
  define seq where "seq = seqs ! nat seq_id"
  have s: "py_index seqs seq_id = Inr seq"
    using assms(2,3) by (simp add: py_index_in_range seq_def)
  have "seq \<in> set seqs" using assms(2,3) by (simp add: seq_def)
  then have nn: "list_all (\<lambda>c. 0 \<le> c) seq" using assms(4) by (simp add: list_all_iff)
  show ?thesis
  proof (cases "length seq = taglen ct")
    case True
    have "\<exists>c. encode_char ct seq k = Inr c" if "k \<in> set [0..<taglen ct]" for k
    proof (rule encode_char_returns[OF assms(1)])
      show "0 \<le> seq ! k" using nn that True by (simp add: list_all_length)
    qed
    then obtain cs where "mapM (encode_char ct seq) [0..<taglen ct] = Inr cs"
      using mapM_total[of "[0..<taglen ct]" "encode_char ct seq"] by blast
    then show ?thesis using None s True by (simp add: encode_entry_def)
  next
    case False
    then show ?thesis using None s by (simp add: encode_entry_def)
  qed
qed

lemma encode_returns:
  assumes shape: "map length tag_ids = map length seq_ids"
    and al: "train_alphabet ct \<noteq> []"
    and ids: "list_all (list_all (\<lambda>s. 0 \<le> s \<and> s < int (length seqs))) seq_ids"
    and chars: "list_all (list_all (\<lambda>c. 0 \<le> c)) seqs"
  shows "\<exists>enc. encode ct tag_ids seq_ids seqs = Inr enc"
proof -
  have l: "length tag_ids = length seq_ids" using shape by (metis length_map)
  have li: "length (tag_ids ! i) = length (seq_ids ! i)" if "i < length seq_ids" for i
    using shape that l by (metis nth_map)
  have row: "\<exists>r. mapM (\<lambda>j. case index2 tag_ids i j of
                             Inl e \<Rightarrow> Inl e
                           | Inr tag_id \<Rightarrow> encode_entry ct seqs tag_id (seq_ids ! i ! j))
                    [0..<length (seq_ids ! i)] = Inr r"
    if i: "i \<in> set [0..<length seq_ids]" for i
  proof (rule mapM_total, rule ballI)
    fix j assume "j \<in> set [0..<length (seq_ids ! i)]"
    then have j: "j < length (seq_ids ! i)" by simp
    have i': "i < length seq_ids" using i by simp
    have ix: "index2 tag_ids i j = Inr (tag_ids ! i ! j)"
      using i' j l li[OF i'] by (simp add: index2_def)
    have "0 \<le> seq_ids ! i ! j \<and> seq_ids ! i ! j < int (length seqs)"
      using ids i' j by (simp add: list_all_length)
    then obtain entry where "encode_entry ct seqs (tag_ids ! i ! j) (seq_ids ! i ! j) = Inr entry"
      using encode_entry_returns[OF al _ _ chars, of "seq_ids ! i ! j" "tag_ids ! i ! j"] by blast
    then show "\<exists>y. (case index2 tag_ids i j of
                             Inl e \<Rightarrow> Inl e
                           | Inr tag_id \<Rightarrow> encode_entry ct seqs tag_id (seq_ids ! i ! j)) = Inr y"
      using ix by simp
  qed
  show ?thesis
    unfolding encode_def by (rule mapM_total) (use row in blast)
qed

text \<open>
  Claim C10. For a \<open>CharTags\<close> object built from the training tags and tag ids and sequence
  ids of one shape, \<open>encode\<close> returns whenever the sequence ids index the character
  sequences, the character ids are not negative and the training alphabet is not empty.
  Every entry that \<open>encode\<close> returns holds the original tag id in component 0, whether it
  comes from the cache or not, and \<open>decode\<close> of the encoded matrix is the lookup of the
  input tag ids in the training tag vocabulary, position by position (with the same
  \<open>IndexError\<close> when an id is outside the vocabulary).
\<close>

theorem chartags_encode_decode_round_trip:
  assumes "CharTags_init train_tags = Inr ct"
    and "map length tag_ids = map length seq_ids"
  shows "(train_alphabet ct \<noteq> [] \<and>
          list_all (list_all (\<lambda>s. 0 \<le> s \<and> s < int (length seqs))) seq_ids \<and>
          list_all (list_all (\<lambda>c. 0 \<le> c)) seqs
          \<longrightarrow> (\<exists>enc. encode ct tag_ids seq_ids seqs = Inr enc)) \<and>
         (\<forall>enc. encode ct tag_ids seq_ids seqs = Inr enc \<longrightarrow>
            length enc = length tag_ids \<and>
            (\<forall>i < length tag_ids. length (enc ! i) = length (tag_ids ! i) \<and>
               (\<forall>j < length (tag_ids ! i). enc ! i ! j \<noteq> [] \<and> enc ! i ! j ! 0 = tag_ids ! i ! j)) \<and>
            decode (train_words ct) enc = vocabulary_lookup (words train_tags) tag_ids)"
proof -
  have returns: "train_alphabet ct \<noteq> [] \<and>
          list_all (list_all (\<lambda>s. 0 \<le> s \<and> s < int (length seqs))) seq_ids \<and>
          list_all (list_all (\<lambda>c. 0 \<le> c)) seqs
          \<longrightarrow> (\<exists>enc. encode ct tag_ids seq_ids seqs = Inr enc)"
    using encode_returns[OF assms(2)] by blast
  have right: "length enc = length tag_ids \<and>
            (\<forall>i < length tag_ids. length (enc ! i) = length (tag_ids ! i) \<and>
               (\<forall>j < length (tag_ids ! i). enc ! i ! j \<noteq> [] \<and> enc ! i ! j ! 0 = tag_ids ! i ! j)) \<and>
            decode (train_words ct) enc = vocabulary_lookup (words train_tags) tag_ids"
    if e: "encode ct tag_ids seq_ids seqs = Inr enc" for enc
  proof -
    have w: "train_words ct = words train_tags"
      and inv: "list_all (\<lambda>(k, e). e \<noteq> [] \<and> e ! 0 = k) (cache ct)"
      using CharTags_init_cache[OF assms(1)] by simp_all
    have l: "length tag_ids = length seq_ids"
      using assms(2) by (metis length_map)
    have li: "length (tag_ids ! i) = length (seq_ids ! i)" if "i < length tag_ids" for i
      using assms(2) that l by (metis nth_map)
    have c: "length enc = length seq_ids \<and>
       (\<forall>i < length seq_ids. length (enc ! i) = length (seq_ids ! i) \<and>
          (\<forall>j < length (seq_ids ! i).
             i < length tag_ids \<and> j < length (tag_ids ! i) \<and>
             enc ! i ! j \<noteq> [] \<and> enc ! i ! j ! 0 = tag_ids ! i ! j))"
      by (rule encode_component0[OF e inv])
    have shape: "length enc = length tag_ids" using c l by simp
    have cells: "\<forall>i < length tag_ids. length (enc ! i) = length (tag_ids ! i) \<and>
          (\<forall>j < length (tag_ids ! i). enc ! i ! j \<noteq> [] \<and> enc ! i ! j ! 0 = tag_ids ! i ! j)"
      using c l li by simp
    have "decode (train_words ct) enc = vocabulary_lookup (words train_tags) tag_ids"
      unfolding w by (rule decode_of_component0[OF shape cells])
    with shape cells show ?thesis by blast
  qed
  show ?thesis using returns right by blast
qed

theorem chartags_encode_decode_round_trip_witness:
  "CharTags_init \<lparr>words = [''<pad>'', ''<unk>'', ''NN'', ''VB'', ''X''],
                   alphabet = [''<pad>'', ''<unk>'', ''N'', ''V'', ''B''],
                   strings = [[''NN'', ''VB'']]\<rparr>
     = Inr \<lparr>train_words = [''<pad>'', ''<unk>'', ''NN'', ''VB'', ''X''],
            train_alphabet = [''<pad>'', ''<unk>'', ''N'', ''V'', ''B''],
            taglen = 2,
            alphabet_maps = [[(''V'', 2), (''N'', 1), (''<unk>'', 0)], [(''B'', 2), (''N'', 1), (''<unk>'', 0)]],
            alphabets = [[''<unk>'', ''N'', ''V''], [''<unk>'', ''N'', ''B'']],
            cache = [(3, [3, 2, 2]), (2, [2, 1, 1])]\<rparr> \<and>
   encode \<lparr>train_words = [''<pad>'', ''<unk>'', ''NN'', ''VB'', ''X''],
            train_alphabet = [''<pad>'', ''<unk>'', ''N'', ''V'', ''B''],
            taglen = 2,
            alphabet_maps = [[(''V'', 2), (''N'', 1), (''<unk>'', 0)], [(''B'', 2), (''N'', 1), (''<unk>'', 0)]],
            alphabets = [[''<unk>'', ''N'', ''V''], [''<unk>'', ''N'', ''B'']],
            cache = [(3, [3, 2, 2]), (2, [2, 1, 1])]\<rparr>
          [[2, 3], [4, 1]] [[0, 1], [2, 3]] [[2, 2], [3, 4], [0, 0], [4, 2]]
     = Inr [[[2, 1, 1], [3, 2, 2]], [[4, 0, 0], [1, 0, 1]]] \<and>
   decode [''<pad>'', ''<unk>'', ''NN'', ''VB'', ''X''] [[[2, 1, 1], [3, 2, 2]], [[4, 0, 0], [1, 0, 1]]]
     = Inr [[''NN'', ''VB''], [''X'', ''<unk>'']]"
proof -
  let ?train = "\<lparr>words = [''<pad>'', ''<unk>'', ''NN'', ''VB'', ''X''],
                   alphabet = [''<pad>'', ''<unk>'', ''N'', ''V'', ''B''],
                   strings = [[''NN'', ''VB'']]\<rparr>"
  let ?ct = "\<lparr>train_words = [''<pad>'', ''<unk>'', ''NN'', ''VB'', ''X''],
            train_alphabet = [''<pad>'', ''<unk>'', ''N'', ''V'', ''B''],
            taglen = 2,
            alphabet_maps = [[(''V'', 2), (''N'', 1), (''<unk>'', 0)], [(''B'', 2), (''N'', 1), (''<unk>'', 0)]],
            alphabets = [[''<unk>'', ''N'', ''V''], [''<unk>'', ''N'', ''B'']],
            cache = [(3, [3, 2, 2]), (2, [2, 1, 1])]\<rparr>"
  let ?enc = "[[[2, 1, 1], [3, 2, 2]], [[4, 0, 0], [1, 0, 1 :: int]]]"
  have i: "CharTags_init ?train = Inr ?ct" by code_simp
  have e: "encode ?ct [[2, 3], [4, 1]] [[0, 1], [2, 3]] [[2, 2], [3, 4], [0, 0], [4, 2]] = Inr ?enc"
    by code_simp
  have s: "map length [[2, 3], [4, 1 :: int]] = map length [[0, 1], [2, 3 :: int]]" by simp
  have v: "vocabulary_lookup (words ?train) [[2, 3], [4, 1]] = Inr [[''NN'', ''VB''], [''X'', ''<unk>'']]"
    by code_simp
  have "decode (train_words ?ct) ?enc = vocabulary_lookup (words ?train) [[2, 3], [4, 1]]"
    using chartags_encode_decode_round_trip[OF i s] e by blast
  then show ?thesis using i e v by simp
qed



section \<open>predict\<close>

lemma mapM_map:
  assumes "\<forall>x \<in> set xs. f x = Inr (g x)"
  shows "mapM f xs = Inr (map g xs)"
  using assms by (induction xs) simp_all












text \<open>
  With lengths other than those of the beam search branch, the id that \<open>predict\<close> leaves
  out need not be an end-of-word token. A word whose greedy decoding is cut off after
  eleven steps, before any end-of-word token, has the recorded length 11: its lemma is the
  first ten characters, and the eleventh, a character of the word, is left out.
\<close>

lemma predict_cut_off_word:
  "predict False [''<pad>'', ''NN''] [''<pad>'', ''<eow>'', ''a'', ''b''] [''<pad>'']
     [\<lparr>sentence_lens = [1], tp = [[[1]]],
       lp = [[2, 2, 2, 2, 2, 2, 2, 2, 2, 2, 3]], lpl = [11], senses = [0]\<rparr>]
     = Inr ([[''aaaaaaaaaa'']], [[''NN'']])"
  by code_simp


section \<open>Inference decoding\<close>

lemma reduce_max_eq:
  assumes "xs \<noteq> []" "list_all (\<lambda>l. 0 \<le> l) xs"
  shows "reduce_max xs = Max (set xs)"
proof -
  have "reduce_max xs = Max (set ((- 2147483648) # xs))"
    unfolding reduce_max_def by (rule Max.set_eq_fold[symmetric])
  also have "\<dots> = max (- 2147483648) (Max (set xs))"
    using assms(1) by simp
  also have "\<dots> = Max (set xs)"
  proof -
    obtain x where "x \<in> set xs" using assms(1) by (cases xs) auto
    then have "0 \<le> x" "x \<le> Max (set xs)" using assms(2) by (auto simp: list_all_iff)
    then show ?thesis by simp
  qed
  finally show ?thesis .
qed

lemma tensor2_mapM_Inr:
  assumes "tensor2_mapM f t = Inr t'"
  shows "ncols t' = ncols t \<and> length (rows t') = length (rows t) \<and>
     (\<forall>i < length (rows t). length (rows t' ! i) = length (rows t ! i) \<and>
        (\<forall>j < length (rows t ! i). f (rows t ! i ! j) = Inr (rows t' ! i ! j)))"
proof -
  obtain rs where rs: "mapM (\<lambda>row. mapM f row) (rows t) = Inr rs" and t': "t' = Tensor2 (ncols t) rs"
    using assms by (auto simp: tensor2_mapM_def split: sum.splits)
  have "length rs = length (rows t)" "\<forall>i < length (rows t). mapM f (rows t ! i) = Inr (rs ! i)"
    using iffD1[OF mapM_Inr_iff rs] by blast+
  then show ?thesis using t' by (auto simp: mapM_Inr_iff)
qed

lemma tensor2_mapM_wf:
  assumes "tensor2_mapM f t = Inr t'" "wf_tensor2 t"
  shows "wf_tensor2 t'"
  using tensor2_mapM_Inr[OF assms(1)] assms(2) by (auto simp: wf_tensor2_def list_all_length)

lemma tensor2_mapM_map:
  assumes "\<forall>row \<in> set (rows t). \<forall>x \<in> set row. f x = Inr (g x)"
  shows "tensor2_mapM f t = Inr (Tensor2 (ncols t) (map (map g) (rows t)))"
proof -
  have "mapM (\<lambda>row. mapM f row) (rows t) = Inr (map (map g) (rows t))"
    by (rule mapM_map) (use assms in \<open>auto intro: mapM_map\<close>)
  then show ?thesis by (simp add: tensor2_mapM_def)
qed

text \<open>
  Claim C9. Both branches of the inference decoding pass the bound
  \<open>max(charseq_lens) + 10\<close> to the framework's \<open>dynamic_decode\<close>. Given that the framework
  emits at most that many steps (and records no length beyond the steps), whatever
  \<open>decode_lemmas\<close> returns has at most \<open>max(charseq_lens) + 10\<close> predicted characters per
  word, and the \<open>lpl - 1\<close> characters that \<open>predict\<close> reads of a word are at most as many.
\<close>

theorem inference_decoding_bounded:
  assumes "greedy_contract greedy_decode" and "beam_contract beam_decode"
    and "charseq_lens \<noteq> []" and "list_all (\<lambda>l. 0 \<le> l) charseq_lens"
    and "decode_lemmas_predictions beams greedy_decode beam_decode charseq_lens eow = Inr (preds, lens)"
  shows "maximum_iterations charseq_lens = Max (set charseq_lens) + 10 \<and>
         wf_tensor2 preds \<and>
         int (ncols preds) \<le> Max (set charseq_lens) + 10 \<and>
         list_all (\<lambda>l. l - 1 \<le> Max (set charseq_lens) + 10) lens"
proof -
  define m where "m = maximum_iterations charseq_lens"
  have m: "m = Max (set charseq_lens) + 10"
    unfolding m_def maximum_iterations_def by (simp add: reduce_max_eq[OF assms(3,4)])
  have "0 \<le> Max (set charseq_lens)"
  proof -
    obtain x where "x \<in> set charseq_lens" using assms(3) by (cases charseq_lens) auto
    then have "0 \<le> x" "x \<le> Max (set charseq_lens)" using assms(4) by (auto simp: list_all_iff)
    then show ?thesis by simp
  qed
  then have m0: "0 \<le> m" using m by simp
  have greedy: "wf_tensor2 preds \<and> int (ncols preds) \<le> m \<and> list_all (\<lambda>l. l - 1 \<le> m) lens"
    if g: "greedy_predictions greedy_decode charseq_lens = Inr (preds, lens)"
  proof -
    obtain out ls where o: "greedy_decode m = (out, ls)" by (cases "greedy_decode m")
    have c: "wf_tensor2 out" "int (ncols out) \<le> m" "list_all (\<lambda>l. l \<le> int (ncols out)) ls"
      using assms(1) m0 o unfolding greedy_contract_def by (metis fst_conv snd_conv)+
    have p: "tensor2_mapM argmax out = Inr preds" and l: "lens = ls"
      using g o by (auto simp: greedy_predictions_def m_def[symmetric] split: sum.splits)
    have "wf_tensor2 preds" by (rule tensor2_mapM_wf[OF p c(1)])
    moreover have "ncols preds = ncols out" using tensor2_mapM_Inr[OF p] by simp
    moreover have "list_all (\<lambda>l. l - 1 \<le> m) ls"
      using c(2,3) by (auto simp: list_all_iff)
    ultimately show ?thesis using c(2) l by simp
  qed
  have beam: "wf_tensor2 preds \<and> int (ncols preds) \<le> m \<and> list_all (\<lambda>l. l - 1 \<le> m) lens"
    if b: "beam_predictions beam_decode k charseq_lens eow = Inr (preds, lens)" for k
  proof -
    define ids where "ids = predicted_ids (beam_decode k m)"
    have c: "wf_tensor2 ids" "int (ncols ids) \<le> m"
      using assms(2) m0 unfolding beam_contract_def ids_def by blast+
    have p: "tensor2_mapM (\<lambda>ids. case ids of [] \<Rightarrow> Inl InvalidArgumentError | b # _ \<Rightarrow> Inr b) ids = Inr preds"
      and l: "beam_prediction_lengths preds eow = Inr lens"
      using b by (auto simp: beam_predictions_def Let_def m_def[symmetric] ids_def[symmetric] split: sum.splits)
    have wf: "wf_tensor2 preds" by (rule tensor2_mapM_wf[OF p c(1)])
    have n: "ncols preds = ncols ids" using tensor2_mapM_Inr[OF p] by simp
    have "list_all (\<lambda>l. l - 1 \<le> int (ncols preds)) lens"
      using beam_prediction_lengths_bound[OF wf l] by blast
    then have "list_all (\<lambda>l. l - 1 \<le> m) lens"
      using c(2) n by (auto simp: list_all_iff)
    then show ?thesis using wf n c(2) by simp
  qed
  have "wf_tensor2 preds \<and> int (ncols preds) \<le> m \<and> list_all (\<lambda>l. l - 1 \<le> m) lens"
  proof (cases beams)
    case None
    then show ?thesis using assms(5) greedy by (simp add: decode_lemmas_predictions_def)
  next
    case (Some k)
    then show ?thesis using assms(5) greedy beam[of k]
      by (cases "k = 0") (simp_all add: decode_lemmas_predictions_def)
  qed
  then show ?thesis using m by (simp add: m_def)
qed

theorem inference_decoding_bounded_witness:
  "decode_lemmas_predictions None
     (\<lambda>m. (Tensor2 (nat (min m 2)) [take (nat (min m 2)) [[1 / 10, 9 / 10], [8 / 10, 2 / 10]]], [min m 2]))
     (\<lambda>k m. \<lparr>predicted_ids = Tensor2 (nat (min m 2)) [take (nat (min m 2)) [[3, 1], [0, 0]]],
             scores = Tensor2 (nat (min m 2)) [take (nat (min m 2)) [[- 1, - 2], [- 2, - 3]]]\<rparr>) [3, 1] 0
     = Inr (Tensor2 2 [[1, 0]], [2]) \<and>
   maximum_iterations [3, 1] = 13 \<and>
   int (ncols (Tensor2 2 [[1, 0 :: int]])) \<le> Max (set [3, 1]) + 10 \<and>
   list_all (\<lambda>l. l - 1 \<le> Max (set [3, 1]) + 10) [2 :: int]"
proof -
  let ?G = "\<lambda>m::int. (Tensor2 (nat (min m 2)) [take (nat (min m 2)) [[1 / 10, 9 / 10], [8 / 10, 2 / 10 :: real]]], [min m 2])"
  let ?B = "\<lambda>(k::int) m::int.
     \<lparr>predicted_ids = Tensor2 (nat (min m 2)) [take (nat (min m 2)) [[3, 1], [0, 0 :: int]]],
      scores = Tensor2 (nat (min m 2)) [take (nat (min m 2)) [[- 1, - 2], [- 2, - 3 :: real]]]\<rparr>"
  have g: "greedy_contract ?G"
    by (auto simp: greedy_contract_def wf_tensor2_def)
  have b: "beam_contract ?B"
    by (auto simp: beam_contract_def wf_tensor2_def)
  have ne: "[3, 1 :: int] \<noteq> []" by simp
  have nn: "list_all (\<lambda>l. 0 \<le> l) [3, 1 :: int]" by simp
  have mi: "maximum_iterations [3, 1] = 13"
    by (simp add: maximum_iterations_def reduce_max_def)
  have d: "decode_lemmas_predictions None ?G ?B [3, 1] 0 = Inr (Tensor2 2 [[1, 0]], [2])"
    by (simp add: decode_lemmas_predictions_def greedy_predictions_def mi tensor2_mapM_def argmax_def)
  show ?thesis
    using inference_decoding_bounded[OF g b ne nn d] d mi by simp
qed







section \<open>Teacher forcing: the helper and the loss\<close>

lemma mask_replicate:
  assumes "0 \<le> L" "nat L \<le> M"
  shows "map (\<lambda>t. int t < L) [0..<M] = replicate (nat L) True @ replicate (M - nat L) False"
  using assms by (intro nth_equalityI) (auto simp: nth_append)

lemma counted_prefix:
  assumes "a \<le> length xs"
  shows "map fst (filter snd (zip xs (replicate a True @ replicate b False))) = take a xs"
proof -
  have "zip xs (replicate a True @ replicate b False)
      = zip (take a xs) (replicate a True) @ zip (drop a xs) (replicate b False)"
    by (simp add: zip_append2)
  moreover have "filter snd (zip (take a xs) (replicate a True)) = zip (take a xs) (replicate a True)"
    by (rule filter_True) (auto dest: set_zip_rightD)
  moreover have "filter snd (zip (drop a xs) (replicate b False)) = []"
    by (rule filter_False) (auto dest: set_zip_rightD)
  moreover have "map fst (zip (take a xs) (replicate a True)) = take a xs"
    using assms by (intro map_fst_zip) simp
  ultimately show ?thesis by simp
qed

lemma reduce_max_upper:
  assumes "x \<in> set xs"
  shows "x \<le> reduce_max xs"
proof -
  have "reduce_max xs = Max (set ((- 2147483648) # xs))"
    unfolding reduce_max_def by (rule Max.set_eq_fold[symmetric])
  then show ?thesis using assms by simp
qed

lemma embedding_lookup_ok:
  assumes "list_all (list_all (\<lambda>c. 0 \<le> c \<and> c < int (length params))) (rows ids)"
  shows "embedding_lookup params ids = Inr (Tensor2 (ncols ids) (map (map (\<lambda>c. params ! nat c)) (rows ids)))"
  unfolding embedding_lookup_def
  by (rule tensor2_mapM_map) (use assms in \<open>auto simp: list_all_iff\<close>)

text \<open>
  Claim C3. Given what the framework documents of \<open>TrainingHelper\<close> (it only reads its
  inputs), for well-formed targets whose ids, \<open>bow\<close> and \<open>eow\<close> are rows of the target
  embedding, the training decoder is run with a helper whose input for a word is the
  embedding of the beginning-of-word token at the first step and, at every later step \<open>t\<close>
  up to the length of the word's target, the embedding of the ground-truth character at
  position \<open>t - 1\<close>, whatever ids the decoder sampled. The labels the loss counts for the
  word are its ground-truth characters followed by the end-of-word token, and the target
  length is incremented by one.
\<close>

theorem teacher_forcing_decoder_inputs:
  assumes th: "training_helper_contract training_helper"
    and wf: "wf_tensor2 target_seqs" and len: "length target_lens = length (rows target_seqs)"
    and rng: "list_all (\<lambda>l. 0 \<le> l \<and> l \<le> int (ncols target_seqs)) target_lens"
    and ids: "list_all (list_all (\<lambda>c. 0 \<le> c \<and> c < int (length tchar_emb))) (rows target_seqs)"
    and bow: "0 \<le> bow \<and> bow < int (length tchar_emb)"
    and eow: "0 \<le> eow \<and> eow < int (length tchar_emb)"
  shows "\<exists>tr tgt. decode_lemmas_training training_helper basic_decode tchar_emb
                  target_seqs target_lens bow eow = Inr tr \<and>
     add_eow target_seqs target_lens eow = Inr (tgt, map (\<lambda>l. l + 1) target_lens) \<and>
     loss_labels tr = tgt \<and>
     loss_weights tr = sequence_mask (map (\<lambda>l. l + 1) target_lens) \<and>
     (train_logits tr, lemma_predictions_training tr) = basic_decode (train_helper tr) \<and>
     (\<forall>w < length (rows target_seqs).
        counted_labels (loss_labels tr) (loss_weights tr) ! w
          = take (nat (target_lens ! w)) (rows target_seqs ! w) @ [eow] \<and>
        initialize (train_helper tr) ! w = tchar_emb ! nat bow \<and>
        (\<forall>t sample_ids. 1 \<le> t \<and> t \<le> nat (target_lens ! w) \<longrightarrow>
           next_inputs (train_helper tr) (t - 1) sample_ids ! w
             = tchar_emb ! nat (rows target_seqs ! w ! (t - 1))))"
proof -
  define lens1 where "lens1 = map (\<lambda>l. l + 1) target_lens"
  obtain tgt where a: "add_eow target_seqs target_lens eow = Inr (tgt, lens1)"
    and rowsp: "\<forall>w < length (rows target_seqs).
        rows tgt ! w = take (nat (target_lens ! w)) (rows target_seqs ! w) @ [eow]
                         @ drop (nat (target_lens ! w)) (rows target_seqs ! w) \<and>
        length (rows (target_seqs_bow tgt bow) ! w) = length (rows tgt ! w) \<and>
        rows (target_seqs_bow tgt bow) ! w ! 0 = bow \<and>
        (\<forall>t. 1 \<le> t \<and> t \<le> nat (target_lens ! w) \<longrightarrow>
             rows (target_seqs_bow tgt bow) ! w ! t = rows target_seqs ! w ! (t - 1))"
    using add_eow_inputs_and_targets[OF wf len rng, of eow bow] unfolding lens1_def by blast
  have tgt: "tgt = Tensor2 (ncols target_seqs + 1)
            (map2 (\<lambda>r l. take (nat l) r @ [eow] @ drop (nat l) r) (rows target_seqs) target_lens)"
    using a add_eow_eq[OF wf len rng, of eow] by simp
  have nrows: "length (rows tgt) = length (rows target_seqs)" using tgt len by simp
  define tsb where "tsb = target_seqs_bow tgt bow"
  have tsb_rows: "rows tsb = map (\<lambda>r. butlast (bow # r)) (rows tgt)"
    by (simp add: tsb_def target_seqs_bow_def drop_last_col_def pad_front_def)
  have tsb_ncols: "ncols tsb = ncols target_seqs + 1"
    by (simp add: tsb_def target_seqs_bow_def drop_last_col_def pad_front_def tgt)
  have gold_len: "length (rows target_seqs ! w) = ncols target_seqs" if "w < length (rows target_seqs)" for w
    using wf that by (simp add: wf_tensor2_def list_all_length)
  have lw: "0 \<le> target_lens ! w \<and> nat (target_lens ! w) \<le> ncols target_seqs"
    if "w < length (rows target_seqs)" for w
    using rng len that by (auto simp: list_all_length)
  have tgt_len: "length (rows tgt ! w) = ncols target_seqs + 1" if w: "w < length (rows target_seqs)" for w
    using rowsp w gold_len[OF w] lw[OF w] by simp
  have wf_tsb: "wf_tensor2 tsb"
    unfolding wf_tensor2_def list_all_length
  proof (intro allI impI)
    fix w assume "w < length (rows tsb)"
    then have w: "w < length (rows target_seqs)" using tsb_rows nrows by simp
    have "length (rows tsb ! w) = length (rows tgt ! w)"
      using rowsp w by (simp add: tsb_def)
    then show "length (rows tsb ! w) = ncols tsb" using tgt_len[OF w] tsb_ncols by simp
  qed
  have in_range: "list_all (list_all (\<lambda>c. 0 \<le> c \<and> c < int (length tchar_emb))) (rows tsb)"
    unfolding list_all_length
  proof (intro allI impI)
    fix w j assume w': "w < length (rows tsb)" and j: "j < length (rows tsb ! w)"
    have w: "w < length (rows target_seqs)" using w' tsb_rows nrows by simp
    define gold where "gold = rows target_seqs ! w"
    define l where "l = nat (target_lens ! w)"
    have r: "rows tsb ! w = butlast (bow # take l gold @ [eow] @ drop l gold)"
      using rowsp w w' tsb_rows nrows by (simp add: gold_def l_def)
    have "rows tsb ! w ! j \<in> set (rows tsb ! w)" using j by simp
    then have "rows tsb ! w ! j \<in> set (bow # take l gold @ [eow] @ drop l gold)"
      unfolding r by (rule in_set_butlastD)
    then have "rows tsb ! w ! j = bow \<or> rows tsb ! w ! j = eow \<or> rows tsb ! w ! j \<in> set gold"
      by (auto dest: in_set_takeD in_set_dropD)
    moreover have "\<forall>c \<in> set gold. 0 \<le> c \<and> c < int (length tchar_emb)"
      using ids w by (simp add: list_all_length gold_def) (metis in_set_conv_nth)
    ultimately show "0 \<le> rows tsb ! w ! j \<and> rows tsb ! w ! j < int (length tchar_emb)"
      using bow eow by auto
  qed
  define tseq_emb where
    "tseq_emb = Tensor2 (ncols tsb) (map (map (\<lambda>c. tchar_emb ! nat c)) (rows tsb))"
  have e: "embedding_lookup tchar_emb tsb = Inr tseq_emb"
    unfolding tseq_emb_def by (rule embedding_lookup_ok[OF in_range])
  have wf_emb: "wf_tensor2 tseq_emb"
    using wf_tsb by (simp add: tseq_emb_def wf_tensor2_def list_all_iff)
  have emb_rows: "length (rows tseq_emb) = length (rows target_seqs)"
    using tsb_rows nrows by (simp add: tseq_emb_def)
  define h where "h = training_helper tseq_emb lens1"
  obtain rnn_output sample_id where bd: "basic_decode h = (rnn_output, sample_id)"
    by (cases "basic_decode h")
  define tr where "tr = \<lparr>train_helper = h, train_logits = rnn_output,
                            lemma_predictions_training = sample_id,
                            loss_labels = tgt,
                            loss_weights = sequence_mask lens1\<rparr>"
  have res: "decode_lemmas_training training_helper basic_decode tchar_emb
                  target_seqs target_lens bow eow = Inr tr"
    by (simp add: decode_lemmas_training_def a tsb_def[symmetric] e Let_def h_def[symmetric] bd tr_def)
  have word: "counted_labels (loss_labels tr) (loss_weights tr) ! w
          = take (nat (target_lens ! w)) (rows target_seqs ! w) @ [eow] \<and>
        initialize (train_helper tr) ! w = tchar_emb ! nat bow \<and>
        (\<forall>t sample_ids. 1 \<le> t \<and> t \<le> nat (target_lens ! w) \<longrightarrow>
           next_inputs (train_helper tr) (t - 1) sample_ids ! w
             = tchar_emb ! nat (rows target_seqs ! w ! (t - 1)))"
    if w: "w < length (rows target_seqs)" for w
  proof -
    define gold where "gold = rows target_seqs ! w"
    define l where "l = nat (target_lens ! w)"
    have l0: "0 \<le> target_lens ! w" and ll: "l \<le> length gold"
      using lw[OF w] gold_len[OF w] by (simp_all add: l_def gold_def)
    have l1: "lens1 ! w = int l + 1" using w len l0 by (simp add: lens1_def l_def)
    have row: "rows tgt ! w = take l gold @ [eow] @ drop l gold"
      using rowsp w by (simp add: gold_def l_def)
    have inp_len: "length (rows tsb ! w) = ncols target_seqs + 1"
      using rowsp w tgt_len[OF w] by (simp add: tsb_def)
    have emb: "rows tseq_emb ! w ! t = tchar_emb ! nat (rows tsb ! w ! t)" if "t \<le> l" for t
      using that ll gold_len[OF w] inp_len w tsb_rows nrows
      by (simp add: tseq_emb_def gold_def)
    \<comment> \<open>the labels the loss counts\<close>
    have mx: "nat (lens1 ! w) \<le> nat (reduce_max lens1)"
    proof -
      have "lens1 ! w \<in> set lens1" using w len by (simp add: lens1_def)
      then have "lens1 ! w \<le> reduce_max lens1" by (rule reduce_max_upper)
      then show ?thesis by simp
    qed
    have mask: "rows (sequence_mask lens1) ! w
        = replicate (nat (lens1 ! w)) True
          @ replicate (nat (reduce_max lens1) - nat (lens1 ! w)) False"
    proof -
      have "rows (sequence_mask lens1) ! w
          = map (\<lambda>t. int t < lens1 ! w) [0..<nat (reduce_max lens1)]"
        using w len by (simp add: sequence_mask_def lens1_def)
      also have "\<dots> = replicate (nat (lens1 ! w)) True
          @ replicate (nat (reduce_max lens1) - nat (lens1 ! w)) False"
        by (rule mask_replicate) (use l1 mx in simp_all)
      finally show ?thesis .
    qed
    have "counted_labels tgt (sequence_mask lens1) ! w
        = map fst (filter snd (zip (rows tgt ! w) (rows (sequence_mask lens1) ! w)))"
      using w len nrows by (simp add: counted_labels_def sequence_mask_def lens1_def)
    also have "\<dots> = take (nat (lens1 ! w)) (rows tgt ! w)"
      unfolding mask by (rule counted_prefix) (use l1 ll row in simp)
    also have "\<dots> = take l gold @ [eow]"
    proof -
      have "nat (lens1 ! w) = Suc l" using l1 by simp
      then show ?thesis using ll by (simp add: row)
    qed
    finally have counted: "counted_labels tgt (sequence_mask lens1) ! w = take l gold @ [eow]" .
    \<comment> \<open>the inputs of the helper\<close>
    have c: "(0 < lens1 ! w \<longrightarrow> initialize h ! w = rows tseq_emb ! w ! 0)
            \<and> (\<forall>time sample_ids.
                  int time + 1 < lens1 ! w
                  \<longrightarrow> next_inputs h time sample_ids ! w = rows tseq_emb ! w ! (time + 1))"
      using th wf_emb emb_rows w len unfolding training_helper_contract_def h_def
      by (simp add: lens1_def)
    have first: "initialize h ! w = tchar_emb ! nat bow"
      using c l1 emb[of 0] rowsp w by (simp add: tsb_def)
    have later: "next_inputs h (t - 1) sample_ids ! w = tchar_emb ! nat (gold ! (t - 1))"
      if t: "1 \<le> t" "t \<le> l" for t sample_ids
    proof -
      have "int (t - 1) + 1 < lens1 ! w" using t l1 by simp
      then have "next_inputs h (t - 1) sample_ids ! w = rows tseq_emb ! w ! (t - 1 + 1)"
        using c by blast
      also have "\<dots> = tchar_emb ! nat (rows tsb ! w ! t)" using t emb[of t] by simp
      also have "rows tsb ! w ! t = gold ! (t - 1)"
        using rowsp w t by (simp add: tsb_def gold_def l_def)
      finally show ?thesis .
    qed
    show ?thesis
      using counted first later by (simp add: tr_def gold_def l_def)
  qed
  have "loss_labels tr = tgt" "loss_weights tr = sequence_mask lens1"
    "(train_logits tr, lemma_predictions_training tr) = basic_decode (train_helper tr)"
    by (simp_all add: tr_def bd)
  then show ?thesis using res a word unfolding lens1_def by blast
qed

theorem teacher_forcing_decoder_inputs_witness:
  "\<exists>tr. decode_lemmas_training
           (\<lambda>inputs sequence_length.
              \<lparr>initialize = map (\<lambda>r. r ! 0) (rows inputs),
               next_inputs = \<lambda>time sample_ids. map (\<lambda>r. r ! (time + 1)) (rows inputs)\<rparr>)
           (\<lambda>h. (Tensor2 0 [[], []], Tensor2 0 [[], []]))
           [''pad'', ''bow'', ''eow'', ''x'', ''y'', ''z'']
           (Tensor2 3 [[3, 4, 5], [4, 3, 0]]) [3, 2] 1 2 = Inr tr \<and>
     loss_labels tr = Tensor2 4 [[3, 4, 5, 2], [4, 3, 2, 0]] \<and>
     counted_labels (loss_labels tr) (loss_weights tr) ! 1 = [4, 3, 2] \<and>
     initialize (train_helper tr) ! 1 = ''bow'' \<and>
     next_inputs (train_helper tr) 0 [5, 5] ! 1 = ''y'' \<and>
     next_inputs (train_helper tr) 1 [5, 5] ! 1 = ''x''"
proof -
  let ?TH = "\<lambda>(inputs :: string tensor2) (sequence_length :: int list).
              \<lparr>initialize = map (\<lambda>r. r ! 0) (rows inputs),
               next_inputs = \<lambda>(time :: nat) (sample_ids :: int list). map (\<lambda>r. r ! (time + 1)) (rows inputs)\<rparr>"
  let ?BD = "\<lambda>h :: string helper. (Tensor2 0 [[], []] :: real list tensor2, Tensor2 0 [[], []] :: int tensor2)"
  let ?emb = "[''pad'', ''bow'', ''eow'', ''x'', ''y'', ''z'']"
  let ?T = "Tensor2 3 [[3, 4, 5], [4, 3, 0 :: int]]"
  have th: "training_helper_contract ?TH"
    by (simp add: training_helper_contract_def)
  have wf: "wf_tensor2 ?T" by (simp add: wf_tensor2_def)
  have len: "length [3, 2 :: int] = length (rows ?T)" by simp
  have rng: "list_all (\<lambda>l. 0 \<le> l \<and> l \<le> int (ncols ?T)) [3, 2]" by simp
  have ids: "list_all (list_all (\<lambda>c. 0 \<le> c \<and> c < int (length ?emb))) (rows ?T)" by simp
  have bow: "0 \<le> (1::int) \<and> 1 < int (length ?emb)" by simp
  have eow: "0 \<le> (2::int) \<and> 2 < int (length ?emb)" by simp
  obtain tr tgt where r: "decode_lemmas_training ?TH ?BD ?emb ?T [3, 2] 1 2 = Inr tr"
    and a: "add_eow ?T [3, 2] 2 = Inr (tgt, map (\<lambda>l. l + 1) [3, 2])"
    and l: "loss_labels tr = tgt"
    and w: "\<forall>w < length (rows ?T).
        counted_labels (loss_labels tr) (loss_weights tr) ! w
          = take (nat ([3, 2] ! w)) (rows ?T ! w) @ [2] \<and>
        initialize (train_helper tr) ! w = ?emb ! nat 1 \<and>
        (\<forall>t sample_ids. 1 \<le> t \<and> t \<le> nat ([3, 2] ! w) \<longrightarrow>
           next_inputs (train_helper tr) (t - 1) sample_ids ! w
             = ?emb ! nat (rows ?T ! w ! (t - 1)))"
    using teacher_forcing_decoder_inputs[OF th wf len rng ids bow eow, of ?BD] by blast
  have t: "tgt = Tensor2 4 [[3, 4, 5, 2], [4, 3, 2, 0]]"
    using a by (simp add: add_eow_def reverse_sequence_def pad_front_def Let_def)
  have w1: "counted_labels (loss_labels tr) (loss_weights tr) ! 1
          = take (nat ([3, 2] ! 1)) (rows ?T ! 1) @ [2] \<and>
        initialize (train_helper tr) ! 1 = ?emb ! nat 1 \<and>
        (\<forall>t sample_ids. 1 \<le> t \<and> t \<le> nat ([3, 2] ! 1) \<longrightarrow>
           next_inputs (train_helper tr) (t - 1) sample_ids ! 1
             = ?emb ! nat (rows ?T ! 1 ! (t - 1)))"
    using w by simp
  have n0: "next_inputs (train_helper tr) (1 - 1) [5, 5] ! 1 = ?emb ! nat (rows ?T ! 1 ! (1 - 1))"
    using w1 by (metis (no_types, lifting) One_nat_def le_refl nat_numeral nth_Cons_0 nth_Cons_Suc
        numeral_le_iff one_le_numeral semiring_norm(69))
  have n1: "next_inputs (train_helper tr) (2 - 1) [5, 5] ! 1 = ?emb ! nat (rows ?T ! 1 ! (2 - 1))"
    using w1 by (metis (no_types, lifting) One_nat_def le_refl nat_numeral nth_Cons_0 nth_Cons_Suc
        one_le_numeral)
  show ?thesis
    using r l t w1 n0 n1 by (intro exI[of _ tr]) simp
qed


end
